theory Spec2Isabelle
  imports Main
begin

section \<open>Data model of ChessGame.ts\<close>

text \<open>
  The types of \<^verbatim>\<open>src/chess/ChessGame.ts\<close>. A coordinate is a JavaScript number. The model
  takes coordinates to be integers (\<open>int\<close>): every coordinate the engine computes itself is
  one, and a caller-supplied coordinate that is not an integer lies outside the model. The
  optional field \<^verbatim>\<open>hasMoved\<close> is only ever read through \<^verbatim>\<open>!piece.hasMoved\<close>, so the absent
  field is modelled as \<open>False\<close>; the optional flags of a history record likewise.
  Record fields carry a short prefix (\<open>ptype\<close>, \<open>pcolor\<close>, \<open>mv_from\<close>, ...) where the
  source uses the bare name for a parameter or local variable as well.
\<close>

datatype PieceType = King | Queen | Rook | Bishop | Knight | Pawn

datatype PieceColor = White | Black

record Position =
  row :: int
  col :: int

record Piece =
  ptype :: PieceType
  pcolor :: PieceColor
  hasMoved :: bool

record Move =
  mv_from :: Position
  mv_to :: Position
  mv_piece :: Piece
  mv_capturedPiece :: "Piece option"
  mv_isEnPassant :: bool
  mv_isCastling :: bool
  mv_promotionPiece :: "PieceType option"

datatype Winner = Color PieceColor | Draw

record ChessGame =
  board :: "Piece option list list"
  currentPlayer :: PieceColor
  gameHistory :: "Move list"
  enPassantTarget :: "Position option"
  isGameOver :: bool
  winner :: "Winner option"

text \<open>The only exception the engine can raise: reading an index of \<^verbatim>\<open>undefined\<close>.\<close>

datatype error = TypeError

section \<open>Construction and accessors\<close>

definition pieceOrder :: "PieceType list" where
  "pieceOrder = [Rook, Knight, Bishop, Queen, King, Bishop, Knight, Rook]"

definition initializeBoard :: "Piece option list list" where
  "initializeBoard =
     [map (\<lambda>t. Some \<lparr>ptype = t, pcolor = Black, hasMoved = False\<rparr>) pieceOrder,
      replicate 8 (Some \<lparr>ptype = Pawn, pcolor = Black, hasMoved = False\<rparr>),
      replicate 8 None, replicate 8 None, replicate 8 None, replicate 8 None,
      replicate 8 (Some \<lparr>ptype = Pawn, pcolor = White, hasMoved = False\<rparr>),
      map (\<lambda>t. Some \<lparr>ptype = t, pcolor = White, hasMoved = False\<rparr>) pieceOrder]"

definition newGame :: ChessGame where
  "newGame = \<lparr>board = initializeBoard, currentPlayer = White, gameHistory = [],
              enPassantTarget = None, isGameOver = False, winner = None\<rparr>"

definition reset :: "ChessGame \<Rightarrow> ChessGame" where
  "reset s = s\<lparr>board := initializeBoard, currentPlayer := White, gameHistory := [],
               enPassantTarget := None, isGameOver := False, winner := None\<rparr>"

definition getCurrentPlayer :: "ChessGame \<Rightarrow> PieceColor" where
  "getCurrentPlayer s = currentPlayer s"

definition isGameFinished :: "ChessGame \<Rightarrow> bool" where
  "isGameFinished s = isGameOver s"

definition getWinner :: "ChessGame \<Rightarrow> Winner option" where
  "getWinner s = winner s"

text \<open>
  \<^verbatim>\<open>getPiece\<close> is \<^verbatim>\<open>this.board[position.row][position.col]\<close>. With a row index outside the
  outer array \<^verbatim>\<open>this.board[position.row]\<close> is \<^verbatim>\<open>undefined\<close> and the second index raises a
  TypeError; with the row inside and the column outside, the read yields \<^verbatim>\<open>undefined\<close>,
  which every caller treats like \<^verbatim>\<open>null\<close>.
\<close>

definition getPiece :: "ChessGame \<Rightarrow> Position \<Rightarrow> error + Piece option" where
  "getPiece s position =
     (if row position < 0 \<or> int (length (board s)) \<le> row position then Inl TypeError
      else let r = board s ! nat (row position) in
        if col position < 0 \<or> int (length r) \<le> col position then Inr None
        else Inr (r ! nat (col position)))"

definition isValidPosition :: "Position \<Rightarrow> bool" where
  "isValidPosition position =
     (row position \<ge> 0 \<and> row position < 8 \<and> col position \<ge> 0 \<and> col position < 8)"

text \<open>
  Inside the engine every read and write of a square happens at a position that was
  bounds-checked by \<^verbatim>\<open>isValidPosition\<close> just before, or in the row of a square that holds
  the piece being moved. \<open>cell\<close> and \<open>setCell\<close> are the read and the write at such a
  position.
\<close>

definition cell :: "ChessGame \<Rightarrow> Position \<Rightarrow> Piece option" where
  "cell s pos = board s ! nat (row pos) ! nat (col pos)"

definition setCell :: "ChessGame \<Rightarrow> Position \<Rightarrow> Piece option \<Rightarrow> ChessGame" where
  "setCell s pos v =
     s\<lparr>board := (board s)[nat (row pos) := (board s ! nat (row pos))[nat (col pos) := v]]\<rparr>"

text \<open>The squares in the order of the nested \<^verbatim>\<open>for (row) for (col)\<close> loops.\<close>

definition squares :: "Position list" where
  "squares = concat (map (\<lambda>r. map (\<lambda>c. \<lparr>row = r, col = c\<rparr>) [0..7]) [0..7])"

section \<open>Move generator\<close>

definition getPawnMoves :: "ChessGame \<Rightarrow> Position \<Rightarrow> PieceColor \<Rightarrow> Position list" where
  "getPawnMoves s from color =
     (let direction = (if color = White then -1 else 1);
          startRow = (if color = White then 6 else 1);
          oneStep = \<lparr>row = row from + direction, col = col from\<rparr>;
          forward =
            (if isValidPosition oneStep \<and> cell s oneStep = None then
               oneStep #
               (if row from = startRow then
                  (let twoStep = \<lparr>row = row from + 2 * direction, col = col from\<rparr> in
                   if isValidPosition twoStep \<and> cell s twoStep = None then [twoStep] else [])
                else [])
             else []);
          captures =
            concat (map (\<lambda>colOffset.
              let capturePos = \<lparr>row = row from + direction, col = col from + colOffset\<rparr> in
              if isValidPosition capturePos then
                (case cell s capturePos of
                   Some targetPiece \<Rightarrow> if pcolor targetPiece \<noteq> color then [capturePos] else []
                 | None \<Rightarrow> [])
                @ (case enPassantTarget s of
                     Some ep \<Rightarrow>
                       if row capturePos = row ep \<and> col capturePos = col ep then [capturePos] else []
                   | None \<Rightarrow> [])
              else []) [-1, 1])
      in forward @ captures)"

text \<open>
  One ray of \<^verbatim>\<open>getRookMoves\<close> or \<^verbatim>\<open>getBishopMoves\<close>: the inner loop
  \<^verbatim>\<open>for (let i = 1; i < 8; i++)\<close>, which is the same in both, from step \<open>i\<close> on.
\<close>

function ray :: "ChessGame \<Rightarrow> Position \<Rightarrow> int \<Rightarrow> int \<Rightarrow> int \<Rightarrow> Position list" where
  "ray s from rowDir colDir i =
     (if i < 8 then
        (let pos = \<lparr>row = row from + i * rowDir, col = col from + i * colDir\<rparr> in
         if \<not> isValidPosition pos then []
         else (case cell s pos of
                 None \<Rightarrow> pos # ray s from rowDir colDir (i + 1)
               | Some piece \<Rightarrow>
                   if pcolor piece \<noteq> pcolor (the (cell s from)) then [pos] else []))
      else [])"
  by pat_completeness auto
termination
  by (relation "measure (\<lambda>(s, from, rowDir, colDir, i). nat (8 - i))") auto

declare ray.simps [simp del]

definition getRookMoves :: "ChessGame \<Rightarrow> Position \<Rightarrow> Position list" where
  "getRookMoves s from =
     concat (map (\<lambda>(rowDir, colDir). ray s from rowDir colDir 1)
       [(-1, 0), (1, 0), (0, -1), (0, 1)])"

definition getBishopMoves :: "ChessGame \<Rightarrow> Position \<Rightarrow> Position list" where
  "getBishopMoves s from =
     concat (map (\<lambda>(rowDir, colDir). ray s from rowDir colDir 1)
       [(-1, -1), (-1, 1), (1, -1), (1, 1)])"

text \<open>The body shared by the offset loops of \<^verbatim>\<open>getKnightMoves\<close> and \<^verbatim>\<open>getKingMoves\<close>.\<close>

definition offsetMoves :: "ChessGame \<Rightarrow> Position \<Rightarrow> (int \<times> int) list \<Rightarrow> Position list" where
  "offsetMoves s from offsets =
     concat (map (\<lambda>(rowOffset, colOffset).
       let pos = \<lparr>row = row from + rowOffset, col = col from + colOffset\<rparr> in
       if isValidPosition pos then
         (case cell s pos of
            None \<Rightarrow> [pos]
          | Some piece \<Rightarrow> if pcolor piece \<noteq> pcolor (the (cell s from)) then [pos] else [])
       else []) offsets)"

definition getKnightMoves :: "ChessGame \<Rightarrow> Position \<Rightarrow> Position list" where
  "getKnightMoves s from =
     offsetMoves s from
       [(-2, -1), (-2, 1), (-1, -2), (-1, 2), (1, -2), (1, 2), (2, -1), (2, 1)]"

definition findKing :: "ChessGame \<Rightarrow> PieceColor \<Rightarrow> Position option" where
  "findKing s color =
     find (\<lambda>pos. case cell s pos of
                   Some piece \<Rightarrow> ptype piece = King \<and> pcolor piece = color
                 | None \<Rightarrow> False) squares"

text \<open>
  \<^verbatim>\<open>calculatePossibleMoves\<close>, \<^verbatim>\<open>getKingMoves\<close> and \<^verbatim>\<open>isInCheck\<close> call each other; the
  flag \<^verbatim>\<open>forCheckValidation\<close> ends the recursion.
\<close>

function calculatePossibleMoves :: "ChessGame \<Rightarrow> Position \<Rightarrow> Piece \<Rightarrow> bool \<Rightarrow> Position list"
  and getKingMoves :: "ChessGame \<Rightarrow> Position \<Rightarrow> bool \<Rightarrow> Position list"
  and isInCheck :: "ChessGame \<Rightarrow> PieceColor \<Rightarrow> bool"
where
  "calculatePossibleMoves s from piece forCheckValidation =
     (case ptype piece of
        Pawn \<Rightarrow> getPawnMoves s from (pcolor piece)
      | Rook \<Rightarrow> getRookMoves s from
      | Knight \<Rightarrow> getKnightMoves s from
      | Bishop \<Rightarrow> getBishopMoves s from
      | Queen \<Rightarrow> getRookMoves s from @ getBishopMoves s from
      | King \<Rightarrow> getKingMoves s from forCheckValidation)"
| "getKingMoves s from forCheckValidation =
     offsetMoves s from
       [(-1, -1), (-1, 0), (-1, 1), (0, -1), (0, 1), (1, -1), (1, 0), (1, 1)]
     @ (if \<not> forCheckValidation then
          (let piece = the (cell s from) in
           if \<not> hasMoved piece \<and> \<not> isInCheck s (pcolor piece) then
             (case cell s \<lparr>row = row from, col = 7\<rparr> of
                Some kingsideRook \<Rightarrow>
                  if \<not> hasMoved kingsideRook
                     \<and> cell s \<lparr>row = row from, col = 5\<rparr> = None
                     \<and> cell s \<lparr>row = row from, col = 6\<rparr> = None
                  then [\<lparr>row = row from, col = 6\<rparr>] else []
              | None \<Rightarrow> [])
             @ (case cell s \<lparr>row = row from, col = 0\<rparr> of
                  Some queensideRook \<Rightarrow>
                    if \<not> hasMoved queensideRook
                       \<and> cell s \<lparr>row = row from, col = 1\<rparr> = None
                       \<and> cell s \<lparr>row = row from, col = 2\<rparr> = None
                       \<and> cell s \<lparr>row = row from, col = 3\<rparr> = None
                    then [\<lparr>row = row from, col = 2\<rparr>] else []
                | None \<Rightarrow> [])
           else [])
        else [])"
| "isInCheck s color =
     (case findKing s color of
        None \<Rightarrow> False
      | Some king \<Rightarrow>
          list_ex (\<lambda>pos.
            case cell s pos of
              Some piece \<Rightarrow>
                pcolor piece \<noteq> color
                \<and> list_ex (\<lambda>move. row move = row king \<and> col move = col king)
                     (calculatePossibleMoves s pos piece True)
            | None \<Rightarrow> False) squares)"
  by pat_completeness auto
termination
  by (relation "measure (\<lambda>x. case x of
        Inl (s, from, piece, fcv) \<Rightarrow> if fcv then 1 else 4
      | Inr (Inl (s, from, fcv)) \<Rightarrow> if fcv then 0 else 3
      | Inr (Inr (s, color)) \<Rightarrow> 2)") auto

declare calculatePossibleMoves.simps [simp del]
declare getKingMoves.simps [simp del]
declare isInCheck.simps [simp del]

section \<open>Legality filter\<close>

text \<open>
  \<^verbatim>\<open>wouldBeInCheck\<close> writes the simulated move into the live board, tests for check and
  writes the two squares back; the model returns the board it leaves behind.
\<close>

definition wouldBeInCheck :: "ChessGame \<Rightarrow> Position \<Rightarrow> Position \<Rightarrow> bool \<times> ChessGame" where
  "wouldBeInCheck s from to =
     (let originalPiece = cell s to;
          movingPiece = the (cell s from);
          s1 = setCell s to (Some movingPiece);
          s2 = setCell s1 from None;
          inCheck = isInCheck s2 (pcolor movingPiece);
          s3 = setCell s2 from (Some movingPiece);
          s4 = setCell s3 to originalPiece
      in (inCheck, s4))"

text \<open>\<^verbatim>\<open>moves.filter(to => !this.wouldBeInCheck(from, to))\<close>, threading the board.\<close>

fun filterMoves :: "ChessGame \<Rightarrow> Position \<Rightarrow> Position list \<Rightarrow> Position list \<times> ChessGame" where
  "filterMoves s from [] = ([], s)"
| "filterMoves s from (to # rest) =
     (case wouldBeInCheck s from to of
        (inCheck, s1) \<Rightarrow>
          (case filterMoves s1 from rest of
             (kept, s2) \<Rightarrow> (if \<not> inCheck then to # kept else kept, s2)))"

definition getPossibleMoves :: "ChessGame \<Rightarrow> Position \<Rightarrow> error + (Position list \<times> ChessGame)" where
  "getPossibleMoves s from =
     (case getPiece s from of
        Inl e \<Rightarrow> Inl e
      | Inr None \<Rightarrow> Inr ([], s)
      | Inr (Some piece) \<Rightarrow>
          if pcolor piece \<noteq> currentPlayer s then Inr ([], s)
          else Inr (filterMoves s from (calculatePossibleMoves s from piece False)))"

section \<open>Move executor\<close>

definition handleSpecialMoves :: "ChessGame \<Rightarrow> Move \<Rightarrow> PieceType option \<Rightarrow> Move \<times> ChessGame" where
  "handleSpecialMoves s move promotionPiece =
     (let move1 =
            (if ptype (mv_piece move) = Pawn \<and> (row (mv_to move) = 0 \<or> row (mv_to move) = 7) then
               (let promoted = (case promotionPiece of Some t \<Rightarrow> t | None \<Rightarrow> Queen) in
                move\<lparr>mv_promotionPiece := Some promoted,
                     mv_piece := (mv_piece move)\<lparr>ptype := promoted\<rparr>\<rparr>)
             else move);
          (move2, s2) =
            (if ptype (mv_piece move1) = King
                \<and> \<bar>col (mv_to move1) - col (mv_from move1)\<bar> = 2 then
               (let isKingside = (col (mv_to move1) > col (mv_from move1));
                    rookFromCol = (if isKingside then 7 else 0);
                    rookToCol = (if isKingside then 5 else 3);
                    rook = cell s \<lparr>row = row (mv_from move1), col = rookFromCol\<rparr>;
                    sa = setCell s \<lparr>row = row (mv_from move1), col = rookToCol\<rparr> rook;
                    sb = setCell sa \<lparr>row = row (mv_from move1), col = rookFromCol\<rparr> None
                in (move1\<lparr>mv_isCastling := True\<rparr>, sb))
             else (move1, s))
      in
        (if ptype (mv_piece move2) = Pawn
            \<and> (case enPassantTarget s2 of
                 Some ep \<Rightarrow> row (mv_to move2) = row ep \<and> col (mv_to move2) = col ep
               | None \<Rightarrow> False) then
           (let capturedPawnRow =
                  (if pcolor (mv_piece move2) = White then row (mv_to move2) + 1
                   else row (mv_to move2) - 1);
                capturedPos = \<lparr>row = capturedPawnRow, col = col (mv_to move2)\<rparr>
            in (move2\<lparr>mv_isEnPassant := True, mv_capturedPiece := cell s2 capturedPos\<rparr>,
                setCell s2 capturedPos None))
         else (move2, s2)))"

definition updateEnPassantTarget :: "ChessGame \<Rightarrow> Move \<Rightarrow> ChessGame" where
  "updateEnPassantTarget s move =
     (let s1 = s\<lparr>enPassantTarget := None\<rparr> in
      if ptype (mv_piece move) = Pawn \<and> \<bar>row (mv_to move) - row (mv_from move)\<bar> = 2 then
        s1\<lparr>enPassantTarget :=
             Some \<lparr>row = (if pcolor (mv_piece move) = White then row (mv_to move) + 1
                          else row (mv_to move) - 1),
                   col = col (mv_to move)\<rparr>\<rparr>
      else s1)"

text \<open>The scan of \<^verbatim>\<open>hasValidMoves\<close> over the remaining squares, with its early return.\<close>

fun hasValidMovesFrom :: "ChessGame \<Rightarrow> PieceColor \<Rightarrow> Position list \<Rightarrow> error + (bool \<times> ChessGame)" where
  "hasValidMovesFrom s color [] = Inr (False, s)"
| "hasValidMovesFrom s color (pos # rest) =
     (case cell s pos of
        None \<Rightarrow> hasValidMovesFrom s color rest
      | Some piece \<Rightarrow>
          if pcolor piece = color then
            (case getPossibleMoves s pos of
               Inl e \<Rightarrow> Inl e
             | Inr (moves, s1) \<Rightarrow>
                 if length moves > 0 then Inr (True, s1)
                 else hasValidMovesFrom s1 color rest)
          else hasValidMovesFrom s color rest)"

definition hasValidMoves :: "ChessGame \<Rightarrow> PieceColor \<Rightarrow> error + (bool \<times> ChessGame)" where
  "hasValidMoves s color = hasValidMovesFrom s color squares"

definition checkGameEnd :: "ChessGame \<Rightarrow> error + ChessGame" where
  "checkGameEnd s =
     (case hasValidMoves s (currentPlayer s) of
        Inl e \<Rightarrow> Inl e
      | Inr (hasValid, s1) \<Rightarrow>
          (let inCheck = isInCheck s1 (currentPlayer s1) in
           if \<not> hasValid then
             Inr (s1\<lparr>isGameOver := True,
                     winner := Some (if inCheck
                                     then Color (if currentPlayer s1 = White then Black else White)
                                     else Draw)\<rparr>)
           else Inr s1))"

definition makeMove ::
  "ChessGame \<Rightarrow> Position \<Rightarrow> Position \<Rightarrow> PieceType option \<Rightarrow> error + (bool \<times> ChessGame)" where
  "makeMove s from to promotionPiece =
     (if isGameOver s then Inr (False, s)
      else case getPiece s from of
        Inl e \<Rightarrow> Inl e
      | Inr None \<Rightarrow> Inr (False, s)
      | Inr (Some piece) \<Rightarrow>
          if pcolor piece \<noteq> currentPlayer s then Inr (False, s)
          else case getPossibleMoves s from of
            Inl e \<Rightarrow> Inl e
          | Inr (possibleMoves, s1) \<Rightarrow>
              if \<not> list_ex (\<lambda>move. row move = row to \<and> col move = col to) possibleMoves
              then Inr (False, s1)
              else
                (let move = \<lparr>mv_from = from, mv_to = to, mv_piece = piece,
                             mv_capturedPiece = cell s1 to, mv_isEnPassant = False,
                             mv_isCastling = False, mv_promotionPiece = None\<rparr>;
                     (move1, s2) = handleSpecialMoves s1 move promotionPiece;
                     s3 = setCell s2 to (Some (piece\<lparr>hasMoved := True\<rparr>));
                     s4 = setCell s3 from None;
                     s5 = updateEnPassantTarget s4 move1;
                     s6 = s5\<lparr>gameHistory := gameHistory s5 @ [move1]\<rparr>;
                     s7 = s6\<lparr>currentPlayer :=
                               (if currentPlayer s6 = White then Black else White)\<rparr>
                 in case checkGameEnd s7 of
                      Inl e \<Rightarrow> Inl e
                    | Inr s8 \<Rightarrow> Inr (True, s8)))"

section \<open>Well-formed boards\<close>

text \<open>The grid is created 8 by 8 and no write of the engine changes its shape.\<close>

definition wf :: "ChessGame \<Rightarrow> bool" where
  "wf s = (length (board s) = 8 \<and> list_all (\<lambda>r. length r = 8) (board s))"

definition kingSteps :: "ChessGame \<Rightarrow> Position \<Rightarrow> Position list" where
  "kingSteps s from = offsetMoves s from
       [(-1, -1), (-1, 0), (-1, 1), (0, -1), (0, 1), (1, -1), (1, 0), (1, 1)]"

definition canCastleKingside :: "ChessGame \<Rightarrow> Position \<Rightarrow> bool" where
  "canCastleKingside s from =
     (\<not> hasMoved (the (cell s from)) \<and> \<not> isInCheck s (pcolor (the (cell s from)))
      \<and> (case cell s \<lparr>row = row from, col = 7\<rparr> of Some rk \<Rightarrow> \<not> hasMoved rk | None \<Rightarrow> False)
      \<and> cell s \<lparr>row = row from, col = 5\<rparr> = None
      \<and> cell s \<lparr>row = row from, col = 6\<rparr> = None)"

definition canCastleQueenside :: "ChessGame \<Rightarrow> Position \<Rightarrow> bool" where
  "canCastleQueenside s from =
     (\<not> hasMoved (the (cell s from)) \<and> \<not> isInCheck s (pcolor (the (cell s from)))
      \<and> (case cell s \<lparr>row = row from, col = 0\<rparr> of Some rk \<Rightarrow> \<not> hasMoved rk | None \<Rightarrow> False)
      \<and> cell s \<lparr>row = row from, col = 1\<rparr> = None
      \<and> cell s \<lparr>row = row from, col = 2\<rparr> = None
      \<and> cell s \<lparr>row = row from, col = 3\<rparr> = None)"

definition legalMoves :: "ChessGame \<Rightarrow> Position \<Rightarrow> Position list" where
  "legalMoves s from =
     (case cell s from of
        None \<Rightarrow> []
      | Some piece \<Rightarrow>
          if pcolor piece \<noteq> currentPlayer s then []
          else filter (\<lambda>to. \<not> fst (wouldBeInCheck s from to))
                 (calculatePossibleMoves s from piece False))"

definition anyLegalMove :: "ChessGame \<Rightarrow> PieceColor \<Rightarrow> bool" where
  "anyLegalMove s color =
     list_ex (\<lambda>pos. case cell s pos of
                      Some piece \<Rightarrow> pcolor piece = color \<and> legalMoves s pos \<noteq> []
                    | None \<Rightarrow> False) squares"

definition applyMove :: "ChessGame \<Rightarrow> Position \<Rightarrow> Position \<Rightarrow> Piece \<Rightarrow> PieceType option \<Rightarrow> ChessGame" where
  "applyMove s1 from to piece promotionPiece =
     (let move = \<lparr>mv_from = from, mv_to = to, mv_piece = piece,
                  mv_capturedPiece = cell s1 to, mv_isEnPassant = False,
                  mv_isCastling = False, mv_promotionPiece = None\<rparr>;
          (move1, s2) = handleSpecialMoves s1 move promotionPiece;
          s3 = setCell s2 to (Some (piece\<lparr>hasMoved := True\<rparr>));
          s4 = setCell s3 from None;
          s5 = updateEnPassantTarget s4 move1;
          s6 = s5\<lparr>gameHistory := gameHistory s5 @ [move1]\<rparr>;
          s7 = s6\<lparr>currentPlayer := (if currentPlayer s6 = White then Black else White)\<rparr>
      in s7)"

text \<open>
  The states a caller can bring the engine into: the constructor's state, and from any such
  state the state after a call of \<^verbatim>\<open>makeMove\<close> that returned, or after \<^verbatim>\<open>reset\<close>.
\<close>

inductive reachable :: "ChessGame \<Rightarrow> bool" where
  reachable_new: "reachable newGame"
| reachable_move:
    "reachable s \<Longrightarrow> makeMove s from to promotionPiece = Inr (ok, s') \<Longrightarrow> reachable s'"
| reachable_reset: "reachable s \<Longrightarrow> reachable (reset s)"

text \<open>
  Move generation and check detection read the board and the en passant target only;
  two states that agree on both give the same answers.
\<close>

definition sameView :: "ChessGame \<Rightarrow> ChessGame \<Rightarrow> bool" where
  "sameView s t = (board s = board t \<and> enPassantTarget s = enPassantTarget t)"

text \<open>
  A caller's script: the calls \<^verbatim>\<open>makeMove(from, to)\<close> of a list in order, none with a promotion
  choice; the result is the list of the flags returned and the state after the last call.
\<close>

fun playMoves :: "ChessGame \<Rightarrow> (Position \<times> Position) list \<Rightarrow> error + (bool list \<times> ChessGame)" where
  "playMoves s [] = Inr ([], s)"
| "playMoves s ((from, to) # rest) =
     (case makeMove s from to None of
        Inl e \<Rightarrow> Inl e
      | Inr (ok, s1) \<Rightarrow>
          (case playMoves s1 rest of
             Inl e \<Rightarrow> Inl e
           | Inr (oks, s2) \<Rightarrow> Inr (ok # oks, s2)))"

text \<open>
  The same script without the legality filter and the game-end scan: what the executor does
  with each move, and the test that each move is a legal one for the piece on its origin.
\<close>

definition advance :: "ChessGame \<Rightarrow> Position \<Rightarrow> Position \<Rightarrow> ChessGame" where
  "advance s from to = applyMove s from to (the (cell s from)) None"

fun replay :: "ChessGame \<Rightarrow> (Position \<times> Position) list \<Rightarrow> ChessGame" where
  "replay s [] = s"
| "replay s ((from, to) # rest) = replay (advance s from to) rest"

definition legalStep :: "ChessGame \<Rightarrow> Position \<Rightarrow> Position \<Rightarrow> bool" where
  "legalStep s from to =
     (isValidPosition from \<and>
      (case cell s from of
         None \<Rightarrow> False
       | Some piece \<Rightarrow>
           pcolor piece = currentPlayer s
           \<and> to \<in> set (calculatePossibleMoves s from piece False)
           \<and> \<not> fst (wouldBeInCheck s from to)))"

fun legalGame :: "ChessGame \<Rightarrow> (Position \<times> Position) list \<Rightarrow> bool" where
  "legalGame s [] = True"
| "legalGame s ((from, to) # rest) = (legalStep s from to \<and> legalGame (advance s from to) rest)"

definition sq :: "int \<Rightarrow> int \<Rightarrow> Position" where
  "sq r c = \<lparr>row = r, col = c\<rparr>"

text \<open>
  A game from the opening position: after its fourteen moves the white king stands on e5
  (row 3, column 4), a white pawn on c5 (row 3, column 2), the black queen on a5 (row 3,
  column 0), and Black has just played b7-b5, so that the pawn on b5 (row 3, column 1) can be
  captured en passant.
\<close>

definition pinGame :: "(Position \<times> Position) list" where
  "pinGame =
     [(sq 6 2, sq 4 2), (sq 1 2, sq 2 2), (sq 4 2, sq 3 2), (sq 0 3, sq 3 0),
      (sq 6 4, sq 5 4), (sq 1 6, sq 2 6), (sq 7 4, sq 6 4), (sq 0 5, sq 2 7),
      (sq 6 4, sq 5 3), (sq 0 6, sq 2 5), (sq 5 3, sq 4 3), (sq 1 0, sq 2 0),
      (sq 4 3, sq 3 4), (sq 1 1, sq 3 1)]"

definition beforeCapture :: ChessGame where
  "beforeCapture = replay newGame pinGame"

definition afterCapture :: ChessGame where
  "afterCapture = advance beforeCapture (sq 3 2) (sq 2 1)"

text \<open>
  A game from the opening position in which the white a-pawn captures its way to b7 (row 1,
  column 1), from where it can capture the rook on a8 (row 0, column 0).
\<close>

definition promotionGame :: "(Position \<times> Position) list" where
  "promotionGame =
     [(sq 6 0, sq 4 0), (sq 1 1, sq 3 1), (sq 4 0, sq 3 1), (sq 1 0, sq 2 0),
      (sq 3 1, sq 2 0), (sq 0 2, sq 1 1), (sq 2 0, sq 1 1), (sq 1 7, sq 2 7)]"

definition beforePromotion :: ChessGame where
  "beforePromotion = replay newGame promotionGame"




text \<open>
  A game from the opening position that ends with the engine declaring checkmate: the white
  king has walked to a4 (row 4, column 0) behind its own pawns on a3 and b3, a white pawn
  stands on c5 (row 3, column 2), Black has pawns on a5 and c6, and Black's last move is
  b7-b5, giving check.
\<close>

definition mateGame :: "(Position \<times> Position) list" where
  "mateGame =
     [(sq 6 2, sq 4 2), (sq 1 0, sq 3 0), (sq 4 2, sq 3 2), (sq 1 2, sq 2 2),
      (sq 6 3, sq 5 3), (sq 0 6, sq 2 7), (sq 7 4, sq 6 3), (sq 2 7, sq 0 6),
      (sq 6 3, sq 6 2), (sq 0 6, sq 2 7), (sq 6 2, sq 5 1), (sq 2 7, sq 0 6),
      (sq 5 1, sq 4 0), (sq 0 6, sq 2 7), (sq 6 0, sq 5 0), (sq 2 7, sq 0 6),
      (sq 6 1, sq 5 1)]"

definition beforeMate :: ChessGame where
  "beforeMate = replay newGame mateGame"

definition declaredMate :: ChessGame where
  "declaredMate =
     (advance beforeMate (sq 1 1) (sq 3 1))\<lparr>isGameOver := True, winner := Some (Color Black)\<rparr>"

section \<open>Reading and writing squares\<close>

lemma pos_eq_iff: "(p::Position) = q \<longleftrightarrow> row p = row q \<and> col p = col q"
  by auto

lemma wf_row_length: "wf s \<Longrightarrow> i < 8 \<Longrightarrow> length (board s ! i) = 8"
  by (simp add: wf_def list_all_length)

lemma list_all_update_row:
  "list_all (\<lambda>r. length r = n) (xs[i := (xs ! i)[j := v]]) = list_all (\<lambda>r. length r = n) xs"
proof (cases "i < length xs")
  case True
  have "\<And>k. k < length xs \<Longrightarrow> length (xs[i := (xs ! i)[j := v]] ! k) = length (xs ! k)"
    using True by (case_tac "k = i") simp_all
  then show ?thesis by (simp add: list_all_length)
next
  case False
  then show ?thesis by (simp add: list_update_beyond)
qed

lemma wf_setCell [simp]: "wf (setCell s p v) = wf s"
  by (simp add: wf_def setCell_def list_all_update_row)

lemma setCell_fields [simp]:
  "currentPlayer (setCell s p v) = currentPlayer s"
  "gameHistory (setCell s p v) = gameHistory s"
  "enPassantTarget (setCell s p v) = enPassantTarget s"
  "isGameOver (setCell s p v) = isGameOver s"
  "winner (setCell s p v) = winner s"
  by (simp_all add: setCell_def)

lemma cell_setCell:
  assumes "wf s" "isValidPosition p" "isValidPosition q"
  shows "cell (setCell s p v) q = (if q = p then v else cell s q)"
proof -
  define i where "i = nat (row p)"
  define j where "j = nat (col p)"
  define k where "k = nat (row q)"
  define l where "l = nat (col q)"
  have lp: "i < 8" "j < 8" "k < 8" "l < 8"
    using assms by (auto simp: isValidPosition_def i_def j_def k_def l_def)
  have eq: "q = p \<longleftrightarrow> k = i \<and> l = j"
    using assms by (auto simp: isValidPosition_def i_def j_def k_def l_def pos_eq_iff)
  have len: "length (board s) = 8" "length (board s ! i) = 8"
    using assms(1) lp by (simp_all add: wf_def wf_row_length)
  have "(board s)[i := (board s ! i)[j := v]] ! k ! l = (if k = i \<and> l = j then v else board s ! k ! l)"
    using lp len by (simp add: nth_list_update)
  then show ?thesis
    unfolding eq by (simp add: cell_def setCell_def i_def j_def k_def l_def)
qed

lemma board_eqI:
  assumes "wf s" "wf t" "\<And>p. isValidPosition p \<Longrightarrow> cell s p = cell t p"
  shows "board s = board t"
proof (rule nth_equalityI)
  show "length (board s) = length (board t)" using assms by (simp add: wf_def)
next
  fix i assume i: "i < length (board s)"
  then have i8: "i < 8" using assms(1) by (simp add: wf_def)
  show "board s ! i = board t ! i"
  proof (rule nth_equalityI)
    show "length (board s ! i) = length (board t ! i)"
      using i8 assms by (simp add: wf_row_length)
  next
    fix j assume "j < length (board s ! i)"
    then have j8: "j < 8" using i8 assms(1) by (simp add: wf_row_length)
    have "isValidPosition \<lparr>row = int i, col = int j\<rparr>"
      using i8 j8 by (simp add: isValidPosition_def)
    from assms(3)[OF this] show "board s ! i ! j = board t ! i ! j"
      by (simp add: cell_def)
  qed
qed

lemma state_eqI:
  assumes "wf s" "wf t" "\<And>p. isValidPosition p \<Longrightarrow> cell s p = cell t p"
    "currentPlayer s = currentPlayer t" "gameHistory s = gameHistory t"
    "enPassantTarget s = enPassantTarget t" "isGameOver s = isGameOver t" "winner s = winner t"
  shows "s = t"
proof -
  have "board s = board t" using assms(1-3) by (rule board_eqI)
  then show ?thesis using assms(4-) by (cases s, cases t) simp
qed

lemma getPiece_wf:
  "wf s \<Longrightarrow> getPiece s p =
     (if row p < 0 \<or> 8 \<le> row p then Inl TypeError
      else if col p < 0 \<or> 8 \<le> col p then Inr None else Inr (cell s p))"
  by (auto simp: getPiece_def wf_def cell_def Let_def list_all_length)

lemma wouldBeInCheck_restores:
  assumes "wf s" "isValidPosition from" "isValidPosition to" "cell s from = Some m"
  shows "snd (wouldBeInCheck s from to) = s"
  unfolding wouldBeInCheck_def Let_def snd_conv
  by (rule state_eqI) (use assms in \<open>auto simp: cell_setCell\<close>)

lemma ray_member:
  "p \<in> set (ray s from rowDir colDir i) \<Longrightarrow>
     isValidPosition p \<and> (\<exists>k. i \<le> k \<and> k < 8 \<and> row p = row from + k * rowDir \<and> col p = col from + k * colDir)"
proof (induction s "from" rowDir colDir i rule: ray.induct)
  case (1 s "from" rowDir colDir i)
  show ?case
  proof (cases "i < 8")
    case False
    with "1.prems" show ?thesis by (simp add: ray.simps[of s "from" rowDir colDir i])
  next
    case True
    define pos where "pos = \<lparr>row = row from + i * rowDir, col = col from + i * colDir\<rparr>"
    show ?thesis
    proof (cases "isValidPosition pos")
      case False
      with True "1.prems" show ?thesis
        by (simp add: ray.simps[of s "from" rowDir colDir i] pos_def)
    next
      case valid: True
      show ?thesis
      proof (cases "cell s pos")
        case None
        with True valid "1.prems" have "p = pos \<or> p \<in> set (ray s from rowDir colDir (i + 1))"
          by (simp add: ray.simps[of s "from" rowDir colDir i] pos_def)
        then show ?thesis
        proof
          assume "p = pos"
          with valid True show ?thesis by (auto simp: pos_def)
        next
          assume "p \<in> set (ray s from rowDir colDir (i + 1))"
          then have "isValidPosition p \<and> (\<exists>k\<ge>i + 1. k < 8 \<and> row p = row from + k * rowDir
                \<and> col p = col from + k * colDir)"
            using "1.IH"[of pos] True pos_def valid None by blast
          then obtain k where "isValidPosition p" "i + 1 \<le> k" "k < 8"
            "row p = row from + k * rowDir" "col p = col from + k * colDir" by blast
          then show ?thesis by (intro conjI exI[of _ k]) simp_all
        qed
      next
        case (Some piece)
        with True valid "1.prems" have "p = pos"
          by (simp add: ray.simps[of s "from" rowDir colDir i] pos_def split: if_splits)
        with valid True show ?thesis by (auto simp: pos_def)
      qed
    qed
  qed
qed

lemma getPawnMoves_member:
  assumes "p \<in> set (getPawnMoves s from color)"
  shows "isValidPosition p \<and>
     ((row p = row from + (if color = White then -1 else 1)
         \<and> (col p = col from \<or> col p = col from - 1 \<or> col p = col from + 1))
      \<or> (row p = row from + 2 * (if color = White then -1 else 1) \<and> col p = col from
         \<and> row from = (if color = White then 6 else 1)))"
  using assms
  by (auto simp: getPawnMoves_def Let_def split: if_splits option.splits)

lemma offsetMoves_member:
  assumes "p \<in> set (offsetMoves s from offsets)"
  shows "isValidPosition p \<and>
     (\<exists>ro co. (ro, co) \<in> set offsets \<and> row p = row from + ro \<and> col p = col from + co)"
  using assms
  by (auto simp: offsetMoves_def Let_def split: if_splits option.splits)

lemma getRookMoves_member:
  assumes "p \<in> set (getRookMoves s from)"
  shows "isValidPosition p \<and> p \<noteq> from"
proof -
  from assms obtain rd cd where d: "(rd, cd) \<in> {(-1, 0), (1, 0), (0, -1), (0, 1)}"
    and p: "p \<in> set (ray s from rd cd 1)"
    by (auto simp: getRookMoves_def)
  from ray_member[OF p] obtain k where k: "isValidPosition p" "1 \<le> k"
    "row p = row from + k * rd" "col p = col from + k * cd" by blast
  from d k have "row p \<noteq> row from \<or> col p \<noteq> col from" by auto
  with k(1) show ?thesis by auto
qed

lemma getBishopMoves_member:
  assumes "p \<in> set (getBishopMoves s from)"
  shows "isValidPosition p \<and> p \<noteq> from"
proof -
  from assms obtain rd cd where d: "(rd, cd) \<in> {(-1, -1), (-1, 1), (1, -1), (1, 1)}"
    and p: "p \<in> set (ray s from rd cd 1)"
    by (auto simp: getBishopMoves_def)
  from ray_member[OF p] obtain k where k: "isValidPosition p" "1 \<le> k"
    "row p = row from + k * rd" "col p = col from + k * cd" by blast
  from d k have "row p \<noteq> row from" by auto
  with k(1) show ?thesis by auto
qed

lemma getKnightMoves_member:
  assumes "p \<in> set (getKnightMoves s from)"
  shows "isValidPosition p \<and> p \<noteq> from"
  using offsetMoves_member[OF assms[unfolded getKnightMoves_def]] by auto

lemma getKingMoves_eq:
  "getKingMoves s from forCheckValidation =
     kingSteps s from
     @ (if \<not> forCheckValidation \<and> canCastleKingside s from then [\<lparr>row = row from, col = 6\<rparr>] else [])
     @ (if \<not> forCheckValidation \<and> canCastleQueenside s from then [\<lparr>row = row from, col = 2\<rparr>] else [])"
  by (simp add: getKingMoves.simps[of s "from" forCheckValidation] Let_def kingSteps_def
        canCastleKingside_def canCastleQueenside_def split: option.splits)

lemma kingSteps_member:
  assumes "p \<in> set (kingSteps s from)"
  shows "isValidPosition p \<and> \<bar>row p - row from\<bar> \<le> 1 \<and> \<bar>col p - col from\<bar> \<le> 1 \<and> p \<noteq> from"
  using offsetMoves_member[OF assms[unfolded kingSteps_def]] by auto

lemma getKingMoves_member:
  assumes "p \<in> set (getKingMoves s from forCheckValidation)"
  shows "p \<in> set (kingSteps s from)
     \<or> (\<not> forCheckValidation \<and> canCastleKingside s from \<and> p = \<lparr>row = row from, col = 6\<rparr>)
     \<or> (\<not> forCheckValidation \<and> canCastleQueenside s from \<and> p = \<lparr>row = row from, col = 2\<rparr>)"
  using assms by (auto simp: getKingMoves_eq split: if_splits)

lemma candidates_valid:
  assumes "isValidPosition from" "p \<in> set (calculatePossibleMoves s from piece forCheckValidation)"
  shows "isValidPosition p"
proof (cases "ptype piece")
  case King
  with assms(2) have "p \<in> set (getKingMoves s from forCheckValidation)"
    by (simp add: calculatePossibleMoves.simps)
  from getKingMoves_member[OF this] assms(1) show ?thesis
    by (auto simp: isValidPosition_def dest: kingSteps_member)
qed (use assms(2) in \<open>auto simp: calculatePossibleMoves.simps dest: getPawnMoves_member
      getRookMoves_member getBishopMoves_member getKnightMoves_member\<close>)

lemma candidates_ne_from:
  assumes "cell s from \<noteq> None" "p \<in> set (calculatePossibleMoves s from piece forCheckValidation)"
  shows "p \<noteq> from"
proof (cases "ptype piece")
  case King
  with assms(2) have "p \<in> set (getKingMoves s from forCheckValidation)"
    by (simp add: calculatePossibleMoves.simps)
  from getKingMoves_member[OF this] assms(1) show ?thesis
    by (auto simp: canCastleKingside_def canCastleQueenside_def dest: kingSteps_member)
next
  case Pawn
  with assms(2) have "p \<in> set (getPawnMoves s from (pcolor piece))"
    by (simp add: calculatePossibleMoves.simps)
  from getPawnMoves_member[OF this] show ?thesis
    by (auto split: if_splits)
qed (use assms(2) in \<open>auto simp: calculatePossibleMoves.simps dest: 
      getRookMoves_member getBishopMoves_member getKnightMoves_member\<close>)

lemma filterMoves_eq:
  assumes "wf s" "isValidPosition from" "cell s from \<noteq> None" "\<forall>p\<in>set ms. isValidPosition p"
  shows "filterMoves s from ms = (filter (\<lambda>to. \<not> fst (wouldBeInCheck s from to)) ms, s)"
  using assms(4)
proof (induction ms)
  case Nil
  show ?case by simp
next
  case (Cons to rest)
  from assms(3) obtain m where m: "cell s from = Some m" by auto
  have "snd (wouldBeInCheck s from to) = s"
    using wouldBeInCheck_restores[OF assms(1,2) _ m] Cons.prems by simp
  then have w: "wouldBeInCheck s from to = (fst (wouldBeInCheck s from to), s)"
    by (metis prod.collapse)
  have ih: "filterMoves s from rest = (filter (\<lambda>to. \<not> fst (wouldBeInCheck s from to)) rest, s)"
    using Cons by simp
  show ?case
    by (subst filterMoves.simps, subst w) (simp add: ih)
qed

lemma getPossibleMoves_eq:
  assumes "wf s"
  shows "getPossibleMoves s from =
     (if row from < 0 \<or> 8 \<le> row from then Inl TypeError
      else if col from < 0 \<or> 8 \<le> col from then Inr ([], s)
      else Inr (legalMoves s from, s))"
proof (cases "isValidPosition from")
  case False
  then show ?thesis
    by (auto simp: getPossibleMoves_def getPiece_wf[OF assms] isValidPosition_def)
next
  case True
  then have g: "getPiece s from = Inr (cell s from)"
    by (auto simp: getPiece_wf[OF assms] isValidPosition_def)
  have range: "\<not> (row from < 0 \<or> 8 \<le> row from)" "\<not> (col from < 0 \<or> 8 \<le> col from)"
    using True by (auto simp: isValidPosition_def)
  show ?thesis
  proof (cases "cell s from")
    case None
    then show ?thesis using range by (simp add: getPossibleMoves_def g legalMoves_def)
  next
    case (Some piece)
    have "filterMoves s from (calculatePossibleMoves s from piece False) =
          (filter (\<lambda>to. \<not> fst (wouldBeInCheck s from to)) (calculatePossibleMoves s from piece False), s)"
      using assms True Some by (intro filterMoves_eq) (auto dest: candidates_valid)
    then show ?thesis using range Some by (simp add: getPossibleMoves_def g legalMoves_def)
  qed
qed

lemma squares_member: "p \<in> set squares \<longleftrightarrow> isValidPosition p"
proof -
  have "set squares = (\<Union>r\<in>{0..7}. (\<lambda>c. \<lparr>row = r, col = c\<rparr>) ` {0..7})"
    by (simp only: squares_def set_concat set_map set_upto image_image)
  moreover have "p \<in> (\<Union>r\<in>{0..7}. (\<lambda>c. \<lparr>row = r, col = c\<rparr>) ` {0..7}) \<longleftrightarrow> isValidPosition p"
  proof
    assume "p \<in> (\<Union>r\<in>{0..7}. (\<lambda>c. \<lparr>row = r, col = c\<rparr>) ` {0..7})"
    then obtain r c where "r \<in> {0..7}" "c \<in> {0..7}" "p = \<lparr>row = r, col = c\<rparr>" by blast
    then show "isValidPosition p" by (simp add: isValidPosition_def)
  next
    assume v: "isValidPosition p"
    have "p = \<lparr>row = row p, col = col p\<rparr>" by simp
    moreover have "row p \<in> {0..7}" "col p \<in> {0..7}" using v by (auto simp: isValidPosition_def)
    ultimately show "p \<in> (\<Union>r\<in>{0..7}. (\<lambda>c. \<lparr>row = r, col = c\<rparr>) ` {0..7})" by blast
  qed
  ultimately show ?thesis by simp
qed

lemma hasValidMovesFrom_eq:
  assumes "wf s" "\<forall>p\<in>set ps. isValidPosition p"
  shows "hasValidMovesFrom s color ps =
     Inr (list_ex (\<lambda>pos. case cell s pos of
                      Some piece \<Rightarrow> pcolor piece = color \<and> legalMoves s pos \<noteq> []
                    | None \<Rightarrow> False) ps, s)"
  using assms(2)
proof (induction ps)
  case Nil
  show ?case by simp
next
  case (Cons pos rest)
  then have v: "isValidPosition pos" by simp
  then have g: "getPossibleMoves s pos = Inr (legalMoves s pos, s)"
    by (auto simp: getPossibleMoves_eq[OF assms(1)] isValidPosition_def)
  from Cons have ih: "hasValidMovesFrom s color rest =
     Inr (list_ex (\<lambda>pos. case cell s pos of
                      Some piece \<Rightarrow> pcolor piece = color \<and> legalMoves s pos \<noteq> []
                    | None \<Rightarrow> False) rest, s)" by simp
  show ?case
  proof (cases "cell s pos")
    case None
    then show ?thesis by (simp add: ih)
  next
    case (Some piece)
    then show ?thesis by (simp add: g ih)
  qed
qed

lemma hasValidMoves_eq:
  "wf s \<Longrightarrow> hasValidMoves s color = Inr (anyLegalMove s color, s)"
  unfolding hasValidMoves_def anyLegalMove_def
  by (rule hasValidMovesFrom_eq) (simp_all add: squares_member)

lemma checkGameEnd_eq:
  "wf s \<Longrightarrow> checkGameEnd s =
     Inr (if anyLegalMove s (currentPlayer s) then s
          else s\<lparr>isGameOver := True,
                 winner := Some (if isInCheck s (currentPlayer s)
                                 then Color (if currentPlayer s = White then Black else White)
                                 else Draw)\<rparr>)"
  by (simp add: checkGameEnd_def hasValidMoves_eq Let_def)

lemma list_ex_pos:
  "list_ex (\<lambda>move. row move = row to \<and> col move = col to) ms \<longleftrightarrow> (to::Position) \<in> set ms"
proof -
  have "\<And>move::Position. (row move = row to \<and> col move = col to) = (move = to)"
    by (auto simp: pos_eq_iff)
  then show ?thesis by (simp add: list_ex_iff)
qed

lemma makeMove_eq:
  assumes "wf s"
  shows "makeMove s from to promotionPiece =
     (if isGameOver s then Inr (False, s)
      else if row from < 0 \<or> 8 \<le> row from then Inl TypeError
      else if col from < 0 \<or> 8 \<le> col from then Inr (False, s)
      else case cell s from of
        None \<Rightarrow> Inr (False, s)
      | Some piece \<Rightarrow>
          if pcolor piece \<noteq> currentPlayer s then Inr (False, s)
          else if to \<notin> set (legalMoves s from) then Inr (False, s)
          else (case checkGameEnd (applyMove s from to piece promotionPiece) of
                  Inl e \<Rightarrow> Inl e
                | Inr s8 \<Rightarrow> Inr (True, s8)))"
  by (simp add: makeMove_def getPiece_wf[OF assms] getPossibleMoves_eq[OF assms] list_ex_pos
        applyMove_def Let_def split: option.splits prod.splits)

lemma wf_record_updates [simp]:
  "wf (s\<lparr>currentPlayer := a\<rparr>) = wf s"
  "wf (s\<lparr>gameHistory := b\<rparr>) = wf s"
  "wf (s\<lparr>enPassantTarget := c\<rparr>) = wf s"
  "wf (s\<lparr>isGameOver := d\<rparr>) = wf s"
  "wf (s\<lparr>winner := e\<rparr>) = wf s"
  by (simp_all add: wf_def)

lemma cell_record_updates [simp]:
  "cell (s\<lparr>currentPlayer := a\<rparr>) p = cell s p"
  "cell (s\<lparr>gameHistory := b\<rparr>) p = cell s p"
  "cell (s\<lparr>enPassantTarget := c\<rparr>) p = cell s p"
  "cell (s\<lparr>isGameOver := d\<rparr>) p = cell s p"
  "cell (s\<lparr>winner := e\<rparr>) p = cell s p"
  by (simp_all add: cell_def)

lemma handleSpecialMoves_fields:
  "wf (snd (handleSpecialMoves s move promotionPiece)) = wf s"
  "currentPlayer (snd (handleSpecialMoves s move promotionPiece)) = currentPlayer s"
  "gameHistory (snd (handleSpecialMoves s move promotionPiece)) = gameHistory s"
  "enPassantTarget (snd (handleSpecialMoves s move promotionPiece)) = enPassantTarget s"
  "isGameOver (snd (handleSpecialMoves s move promotionPiece)) = isGameOver s"
  "winner (snd (handleSpecialMoves s move promotionPiece)) = winner s"
  by (simp_all add: handleSpecialMoves_def Let_def split: prod.splits if_splits)

lemma updateEnPassantTarget_fields [simp]:
  "wf (updateEnPassantTarget s move) = wf s"
  "cell (updateEnPassantTarget s move) p = cell s p"
  "currentPlayer (updateEnPassantTarget s move) = currentPlayer s"
  "gameHistory (updateEnPassantTarget s move) = gameHistory s"
  "isGameOver (updateEnPassantTarget s move) = isGameOver s"
  "winner (updateEnPassantTarget s move) = winner s"
  by (simp_all add: updateEnPassantTarget_def Let_def)

lemma applyMove_fields:
  "wf (applyMove s from to piece promotionPiece) = wf s"
  "currentPlayer (applyMove s from to piece promotionPiece) =
     (if currentPlayer s = White then Black else White)"
  "isGameOver (applyMove s from to piece promotionPiece) = isGameOver s"
  "winner (applyMove s from to piece promotionPiece) = winner s"
proof -
  obtain move1 s2 where h: "handleSpecialMoves s \<lparr>mv_from = from, mv_to = to, mv_piece = piece,
                  mv_capturedPiece = cell s to, mv_isEnPassant = False,
                  mv_isCastling = False, mv_promotionPiece = None\<rparr> promotionPiece = (move1, s2)"
    by (cases "handleSpecialMoves s \<lparr>mv_from = from, mv_to = to, mv_piece = piece,
                  mv_capturedPiece = cell s to, mv_isEnPassant = False,
                  mv_isCastling = False, mv_promotionPiece = None\<rparr> promotionPiece")
  have f: "wf s2 = wf s" "currentPlayer s2 = currentPlayer s" "isGameOver s2 = isGameOver s"
    "winner s2 = winner s"
    using handleSpecialMoves_fields[of s _ promotionPiece, unfolded h] h
    by (metis snd_conv)+
  show "wf (applyMove s from to piece promotionPiece) = wf s"
    "currentPlayer (applyMove s from to piece promotionPiece) =
     (if currentPlayer s = White then Black else White)"
    "isGameOver (applyMove s from to piece promotionPiece) = isGameOver s"
    "winner (applyMove s from to piece promotionPiece) = winner s"
    by (simp_all add: applyMove_def h Let_def f)
qed

lemma makeMove_success:
  assumes "wf s" "makeMove s from to promotionPiece = Inr (True, s')"
  obtains piece where "\<not> isGameOver s" "isValidPosition from" "cell s from = Some piece"
    "pcolor piece = currentPlayer s" "to \<in> set (legalMoves s from)"
    "checkGameEnd (applyMove s from to piece promotionPiece) = Inr s'"
  using assms(2) unfolding makeMove_eq[OF assms(1)]
  by (auto simp: isValidPosition_def split: if_splits option.splits sum.splits)

lemma makeMove_failure:
  assumes "wf s" "makeMove s from to promotionPiece = Inr (False, s')"
  shows "s' = s"
  using assms(2) unfolding makeMove_eq[OF assms(1)]
  by (auto split: if_splits option.splits sum.splits)

text \<open>
  Claim C9 (turn alternation). On a well-formed board, a call of \<^verbatim>\<open>makeMove\<close> that returns
  true leaves \<^verbatim>\<open>getCurrentPlayer()\<close> at the opposite colour of its value before the call,
  and a call that returns false leaves it as it was.
\<close>

theorem turn_alternation:
  assumes "wf s" "makeMove s from to promotionPiece = Inr (ok, s')"
  shows "getCurrentPlayer s' =
     (if ok then (if getCurrentPlayer s = White then Black else White) else getCurrentPlayer s)"
proof (cases ok)
  case False
  with assms(2) have "makeMove s from to promotionPiece = Inr (False, s')" by simp
  from makeMove_failure[OF assms(1) this] False show ?thesis by simp
next
  case True
  with assms obtain piece where
    c: "checkGameEnd (applyMove s from to piece promotionPiece) = Inr s'"
    by (auto elim: makeMove_success)
  have w: "wf (applyMove s from to piece promotionPiece)"
    using assms(1) by (simp add: applyMove_fields)
  from c have "currentPlayer s' = currentPlayer (applyMove s from to piece promotionPiece)"
    unfolding checkGameEnd_eq[OF w] by (auto split: if_splits)
  with True show ?thesis by (simp add: getCurrentPlayer_def applyMove_fields)
qed

lemma wf_newGame: "wf newGame"
  by (simp add: wf_def newGame_def initializeBoard_def pieceOrder_def)

lemma first_move_evaluates:
  "(case makeMove newGame \<lparr>row = 6, col = 4\<rparr> \<lparr>row = 4, col = 4\<rparr> None of
      Inr (ok, s') \<Rightarrow> ok | Inl e \<Rightarrow> False)"
  by code_simp

lemma first_move_ok:
  "\<exists>s'. makeMove newGame \<lparr>row = 6, col = 4\<rparr> \<lparr>row = 4, col = 4\<rparr> None = Inr (True, s')"
  using first_move_evaluates by (auto split: sum.splits prod.splits)

theorem turn_alternation_witness:
  "wf newGame \<and> (\<exists>s'. makeMove newGame \<lparr>row = 6, col = 4\<rparr> \<lparr>row = 4, col = 4\<rparr> None = Inr (True, s')
      \<and> getCurrentPlayer newGame = White \<and> getCurrentPlayer s' = Black)"
proof -
  from first_move_ok obtain s' where
    m: "makeMove newGame \<lparr>row = 6, col = 4\<rparr> \<lparr>row = 4, col = 4\<rparr> None = Inr (True, s')" ..
  have "getCurrentPlayer newGame = White" by (simp add: getCurrentPlayer_def newGame_def)
  with turn_alternation[OF wf_newGame m] m wf_newGame show ?thesis by auto
qed

text \<open>
  Claim C4 (failure atomicity). On a well-formed board, if the game is already over, or the
  origin square is empty, or the piece on it is not the current player's, or the destination is
  not in the list that \<^verbatim>\<open>getPossibleMoves\<close> returns for the origin, then \<^verbatim>\<open>makeMove\<close> returns
  false and the whole game state (board, current player, history, en passant target, game-over
  flag, winner) is the state before the call. Conversely every call that returns false has one
  of these four causes and returns the state unchanged.
\<close>

theorem failure_atomicity:
  assumes "wf s"
  shows "((isGameOver s
           \<or> getPiece s from = Inr None
           \<or> (\<exists>piece. getPiece s from = Inr (Some piece) \<and> pcolor piece \<noteq> currentPlayer s)
           \<or> (\<exists>moves s1. getPossibleMoves s from = Inr (moves, s1) \<and> to \<notin> set moves))
          \<longrightarrow> makeMove s from to promotionPiece = Inr (False, s))
       \<and> (\<forall>s'. makeMove s from to promotionPiece = Inr (False, s') \<longrightarrow>
             s' = s
             \<and> (isGameOver s
                \<or> getPiece s from = Inr None
                \<or> (\<exists>piece. getPiece s from = Inr (Some piece) \<and> pcolor piece \<noteq> currentPlayer s)
                \<or> (\<exists>moves s1. getPossibleMoves s from = Inr (moves, s1) \<and> to \<notin> set moves)))"
proof (intro conjI impI allI)
  assume cause: "isGameOver s
           \<or> getPiece s from = Inr None
           \<or> (\<exists>piece. getPiece s from = Inr (Some piece) \<and> pcolor piece \<noteq> currentPlayer s)
           \<or> (\<exists>moves s1. getPossibleMoves s from = Inr (moves, s1) \<and> to \<notin> set moves)"
  then show "makeMove s from to promotionPiece = Inr (False, s)"
    unfolding makeMove_eq[OF assms] getPiece_wf[OF assms] getPossibleMoves_eq[OF assms]
    by (auto split: if_splits option.splits simp: legalMoves_def)
next
  fix s' assume f: "makeMove s from to promotionPiece = Inr (False, s')"
  from makeMove_failure[OF assms f] show "s' = s" .
  from f show "isGameOver s
           \<or> getPiece s from = Inr None
           \<or> (\<exists>piece. getPiece s from = Inr (Some piece) \<and> pcolor piece \<noteq> currentPlayer s)
           \<or> (\<exists>moves s1. getPossibleMoves s from = Inr (moves, s1) \<and> to \<notin> set moves)"
    unfolding makeMove_eq[OF assms] getPiece_wf[OF assms] getPossibleMoves_eq[OF assms]
    by (auto split: if_splits option.splits sum.splits)
qed

theorem failure_atomicity_witness:
  "wf newGame \<and> getPiece newGame \<lparr>row = 4, col = 4\<rparr> = Inr None
   \<and> makeMove newGame \<lparr>row = 4, col = 4\<rparr> \<lparr>row = 3, col = 4\<rparr> None = Inr (False, newGame)"
proof -
  have g: "getPiece newGame \<lparr>row = 4, col = 4\<rparr> = Inr None"
    by (simp add: getPiece_def newGame_def initializeBoard_def pieceOrder_def)
  with failure_atomicity[OF wf_newGame, of "\<lparr>row = 4, col = 4\<rparr>" "\<lparr>row = 3, col = 4\<rparr>" None]
  show ?thesis using wf_newGame by blast
qed

lemma legalMoves_candidate:
  assumes "to \<in> set (legalMoves s from)" "cell s from = Some piece"
  shows "to \<in> set (calculatePossibleMoves s from piece False)"
    and "pcolor piece = currentPlayer s" and "\<not> fst (wouldBeInCheck s from to)"
  using assms by (auto simp: legalMoves_def split: if_splits)

lemma handleSpecialMoves_flags:
  assumes "handleSpecialMoves s move promotionPiece = (move', s2)"
    "\<not> mv_isEnPassant move" "\<not> mv_isCastling move"
  shows "mv_from move' = mv_from move" "mv_to move' = mv_to move"
    "pcolor (mv_piece move') = pcolor (mv_piece move)"
    "hasMoved (mv_piece move') = hasMoved (mv_piece move)"
    "ptype (mv_piece move') =
       (if ptype (mv_piece move) = Pawn \<and> (row (mv_to move) = 0 \<or> row (mv_to move) = 7)
        then (case promotionPiece of Some t \<Rightarrow> t | None \<Rightarrow> Queen) else ptype (mv_piece move))"
    "mv_isCastling move' \<longleftrightarrow>
       ptype (mv_piece move') = King \<and> \<bar>col (mv_to move) - col (mv_from move)\<bar> = 2"
    "mv_isEnPassant move' \<longleftrightarrow>
       ptype (mv_piece move') = Pawn \<and> enPassantTarget s = Some (mv_to move)"
  using assms
  by (auto simp: handleSpecialMoves_def Let_def pos_eq_iff split: if_splits option.splits prod.splits)

lemma handleSpecialMoves_cell:
  assumes wf: "wf s" and h: "handleSpecialMoves s move promotionPiece = (move', s2)"
    and fl: "\<not> mv_isEnPassant move" "\<not> mv_isCastling move"
    and eqs: "mv_from move = from" "mv_to move = to" "pcolor (mv_piece move) = color"
    and vf: "isValidPosition from" and vq: "isValidPosition q"
    and vc: "mv_isEnPassant move' \<Longrightarrow> isValidPosition
        \<lparr>row = (if color = White then row to + 1 else row to - 1), col = col to\<rparr>"
  shows "cell s2 q =
     (if mv_isEnPassant move' \<and> q =
           \<lparr>row = (if color = White then row to + 1 else row to - 1), col = col to\<rparr> then None
      else if mv_isCastling move' \<and> q =
           \<lparr>row = row from, col = (if col to > col from then 7 else 0)\<rparr>
        then None
      else if mv_isCastling move' \<and> q =
           \<lparr>row = row from, col = (if col to > col from then 5 else 3)\<rparr>
        then cell s \<lparr>row = row from, col = (if col to > col from then 7 else 0)\<rparr>
      else cell s q)"
proof -
  note fs = handleSpecialMoves_flags[OF h fl]
  define rookFrom where "rookFrom =
     \<lparr>row = row from, col = (if col to > col from then 7 else 0)\<rparr>"
  define rookTo where "rookTo =
     \<lparr>row = row from, col = (if col to > col from then 5 else 3 :: int)\<rparr>"
  define capturedPos where "capturedPos =
     \<lparr>row = (if color = White then row to + 1 else row to - 1), col = col to\<rparr>"
  have vr: "isValidPosition rookFrom" "isValidPosition rookTo" "rookFrom \<noteq> rookTo"
    using vf by (auto simp: isValidPosition_def rookFrom_def rookTo_def)
  have excl: "\<not> (mv_isEnPassant move' \<and> mv_isCastling move')"
    using fs(6,7) by auto
  show ?thesis
  proof (cases "mv_isCastling move'")
    case True
    then have ne: "\<not> mv_isEnPassant move'" using excl by simp
    have "s2 = setCell (setCell s rookTo (cell s rookFrom)) rookFrom None"
      using h True ne fs(5,6,7) eqs
      by (auto simp: handleSpecialMoves_def Let_def rookFrom_def rookTo_def pos_eq_iff
            split: if_splits option.splits prod.splits)
    then have "cell s2 q = (if q = rookFrom then None else if q = rookTo then cell s rookFrom else cell s q)"
      using wf vr vq by (simp add: cell_setCell)
    with True ne show ?thesis
      unfolding rookFrom_def[symmetric] rookTo_def[symmetric] by simp
  next
    case False
    show ?thesis
    proof (cases "mv_isEnPassant move'")
      case True
      have "s2 = setCell s capturedPos None"
        using h True False fs(5,6,7) eqs
        by (auto simp: handleSpecialMoves_def Let_def capturedPos_def pos_eq_iff
              split: if_splits option.splits prod.splits)
      moreover have "isValidPosition capturedPos" using vc[OF True] by (simp add: capturedPos_def)
      ultimately have "cell s2 q = (if q = capturedPos then None else cell s q)"
        using wf vq by (simp add: cell_setCell)
      with True False show ?thesis unfolding capturedPos_def[symmetric] by simp
    next
      case ne: False
      have "s2 = s"
        using h ne False fs(5,6,7) eqs
        by (auto simp: handleSpecialMoves_def Let_def pos_eq_iff
              split: if_splits option.splits prod.splits)
      with ne False show ?thesis by simp
    qed
  qed
qed

lemma getPiece_valid: "wf s \<Longrightarrow> isValidPosition p \<Longrightarrow> getPiece s p = Inr (cell s p)"
  by (auto simp: getPiece_wf isValidPosition_def)

lemma pawn_capturedPos_valid:
  assumes "isValidPosition from" "to \<in> set (getPawnMoves s from color)"
  shows "isValidPosition \<lparr>row = (if color = White then row to + 1 else row to - 1), col = col to\<rparr>"
  using getPawnMoves_member[OF assms(2)] assms(1)
  by (auto simp: isValidPosition_def split: if_splits)

lemma applyMove_unfold:
  obtains move' s2 where
    "handleSpecialMoves s \<lparr>mv_from = from, mv_to = to, mv_piece = piece,
        mv_capturedPiece = cell s to, mv_isEnPassant = False,
        mv_isCastling = False, mv_promotionPiece = None\<rparr> promotionPiece = (move', s2)"
    "applyMove s from to piece promotionPiece =
       (updateEnPassantTarget
          (setCell (setCell s2 to (Some (piece\<lparr>hasMoved := True\<rparr>))) from None) move')
       \<lparr>gameHistory := gameHistory s2 @ [move'],
        currentPlayer := (if currentPlayer s2 = White then Black else White)\<rparr>"
proof -
  obtain move' s2 where h: "handleSpecialMoves s \<lparr>mv_from = from, mv_to = to, mv_piece = piece,
        mv_capturedPiece = cell s to, mv_isEnPassant = False,
        mv_isCastling = False, mv_promotionPiece = None\<rparr> promotionPiece = (move', s2)"
    by (cases "handleSpecialMoves s \<lparr>mv_from = from, mv_to = to, mv_piece = piece,
        mv_capturedPiece = cell s to, mv_isEnPassant = False,
        mv_isCastling = False, mv_promotionPiece = None\<rparr> promotionPiece")
  have "applyMove s from to piece promotionPiece =
       (updateEnPassantTarget
          (setCell (setCell s2 to (Some (piece\<lparr>hasMoved := True\<rparr>))) from None) move')
       \<lparr>gameHistory := gameHistory s2 @ [move'],
        currentPlayer := (if currentPlayer s2 = White then Black else White)\<rparr>"
    by (simp add: applyMove_def h Let_def)
  with h show ?thesis by (rule that)
qed

lemma checkGameEnd_frame:
  assumes "wf s" "checkGameEnd s = Inr s'"
  shows "board s' = board s" "gameHistory s' = gameHistory s"
    "enPassantTarget s' = enPassantTarget s" "currentPlayer s' = currentPlayer s"
  using assms(2) unfolding checkGameEnd_eq[OF assms(1)] by (auto split: if_splits)

lemma cell_cong_board: "board s' = board s \<Longrightarrow> cell s' p = cell s p"
  by (simp add: cell_def)

lemma wf_cong_board: "board s' = board s \<Longrightarrow> wf s' = wf s"
  by (simp add: wf_def)

text \<open>The facts about a successful call that the claims below share.\<close>

lemma makeMove_success_facts:
  assumes wf: "wf s" and mk: "makeMove s from to promotionPiece = Inr (True, s')"
  obtains piece move' s2 where
    "\<not> isGameOver s" "isValidPosition from" "isValidPosition to" "to \<noteq> from"
    "cell s from = Some piece" "pcolor piece = currentPlayer s"
    "to \<in> set (calculatePossibleMoves s from piece False)"
    "to \<in> set (legalMoves s from)"
    "handleSpecialMoves s \<lparr>mv_from = from, mv_to = to, mv_piece = piece,
        mv_capturedPiece = cell s to, mv_isEnPassant = False,
        mv_isCastling = False, mv_promotionPiece = None\<rparr> promotionPiece = (move', s2)"
    "wf s'"
    "\<And>q. cell s' q = cell (setCell (setCell s2 to (Some (piece\<lparr>hasMoved := True\<rparr>))) from None) q"
    "gameHistory s' = gameHistory s @ [move']"
    "enPassantTarget s' = enPassantTarget (updateEnPassantTarget s move')"
    "checkGameEnd (applyMove s from to piece promotionPiece) = Inr s'"
proof -
  from makeMove_success[OF wf mk] obtain piece where p:
    "\<not> isGameOver s" "isValidPosition from" "cell s from = Some piece"
    "pcolor piece = currentPlayer s" "to \<in> set (legalMoves s from)"
    "checkGameEnd (applyMove s from to piece promotionPiece) = Inr s'" by blast
  have cand: "to \<in> set (calculatePossibleMoves s from piece False)"
    using legalMoves_candidate(1)[OF p(5) p(3)] .
  have vt: "isValidPosition to" using candidates_valid[OF p(2) cand] .
  have ne: "to \<noteq> from" using candidates_ne_from[OF _ cand] p(3) by simp
  obtain move' s2 where h: "handleSpecialMoves s \<lparr>mv_from = from, mv_to = to, mv_piece = piece,
        mv_capturedPiece = cell s to, mv_isEnPassant = False,
        mv_isCastling = False, mv_promotionPiece = None\<rparr> promotionPiece = (move', s2)"
    and a: "applyMove s from to piece promotionPiece =
       (updateEnPassantTarget
          (setCell (setCell s2 to (Some (piece\<lparr>hasMoved := True\<rparr>))) from None) move')
       \<lparr>gameHistory := gameHistory s2 @ [move'],
        currentPlayer := (if currentPlayer s2 = White then Black else White)\<rparr>"
    by (rule applyMove_unfold)
  have wa: "wf (applyMove s from to piece promotionPiece)" using wf by (simp add: applyMove_fields)
  note fr = checkGameEnd_frame[OF wa p(6)]
  have s2f: "gameHistory s2 = gameHistory s" "enPassantTarget s2 = enPassantTarget s"
    using handleSpecialMoves_fields(3,4)[of s _ promotionPiece] h by (metis snd_conv)+
  have 1: "wf s'" using wf_cong_board[OF fr(1)] wa by simp
  have 2: "\<And>q. cell s' q = cell (setCell (setCell s2 to (Some (piece\<lparr>hasMoved := True\<rparr>))) from None) q"
    using cell_cong_board[OF fr(1)] by (simp add: a)
  have 3: "gameHistory s' = gameHistory s @ [move']" using fr(2) by (simp add: a s2f)
  have 4: "enPassantTarget s' = enPassantTarget (updateEnPassantTarget s move')"
    using fr(3) by (simp add: a updateEnPassantTarget_def Let_def)
  show ?thesis
    using that[OF p(1,2) vt ne p(3,4) cand p(5) h 1 2 3 4 p(6)] .
qed

lemma moved_cells:
  assumes wf: "wf s" and mk: "makeMove s from to promotionPiece = Inr (True, s')"
  obtains piece move' where
    "cell s from = Some piece" "isValidPosition from" "isValidPosition to" "wf s'"
    "gameHistory s' = gameHistory s @ [move']"
    "cell s' from = None" "cell s' to = Some (piece\<lparr>hasMoved := True\<rparr>)"
    "\<And>q. isValidPosition q \<Longrightarrow> q \<noteq> from \<Longrightarrow> q \<noteq> to \<Longrightarrow> cell s' q =
     (if mv_isEnPassant move' \<and> q =
           \<lparr>row = (if pcolor piece = White then row to + 1 else row to - 1), col = col to\<rparr> then None
      else if mv_isCastling move' \<and> q =
           \<lparr>row = row from, col = (if col to > col from then 7 else 0)\<rparr>
        then None
      else if mv_isCastling move' \<and> q =
           \<lparr>row = row from, col = (if col to > col from then 5 else 3)\<rparr>
        then cell s \<lparr>row = row from, col = (if col to > col from then 7 else 0)\<rparr>
      else cell s q)"
proof -
  from makeMove_success_facts[OF wf mk] obtain piece move' s2 where f:
    "\<not> isGameOver s" "isValidPosition from" "isValidPosition to" "to \<noteq> from"
    "cell s from = Some piece" "pcolor piece = currentPlayer s"
    "to \<in> set (calculatePossibleMoves s from piece False)"
    "to \<in> set (legalMoves s from)"
    "handleSpecialMoves s \<lparr>mv_from = from, mv_to = to, mv_piece = piece,
        mv_capturedPiece = cell s to, mv_isEnPassant = False,
        mv_isCastling = False, mv_promotionPiece = None\<rparr> promotionPiece = (move', s2)"
    "wf s'"
    "\<And>q. cell s' q = cell (setCell (setCell s2 to (Some (piece\<lparr>hasMoved := True\<rparr>))) from None) q"
    "gameHistory s' = gameHistory s @ [move']"
    "enPassantTarget s' = enPassantTarget (updateEnPassantTarget s move')"
    "checkGameEnd (applyMove s from to piece promotionPiece) = Inr s'"
    by blast
  let ?move = "\<lparr>mv_from = from, mv_to = to, mv_piece = piece,
        mv_capturedPiece = cell s to, mv_isEnPassant = False,
        mv_isCastling = False, mv_promotionPiece = None\<rparr>"
  have w2: "wf s2"
    using handleSpecialMoves_fields(1)[of s ?move promotionPiece] f(9) wf by simp
  note fs = handleSpecialMoves_flags[OF f(9), simplified]
  have vc: "isValidPosition
        \<lparr>row = (if pcolor piece = White then row to + 1 else row to - 1), col = col to\<rparr>"
    if "mv_isEnPassant move'"
  proof -
    from that fs have "ptype piece = Pawn" by (auto split: if_splits)
    with f(7) have "to \<in> set (getPawnMoves s from (pcolor piece))"
      by (simp add: calculatePossibleMoves.simps)
    from pawn_capturedPos_valid[OF f(2) this] show ?thesis .
  qed
  have c2: "cell s2 q =
     (if mv_isEnPassant move' \<and> q =
           \<lparr>row = (if pcolor piece = White then row to + 1 else row to - 1), col = col to\<rparr> then None
      else if mv_isCastling move' \<and> q =
           \<lparr>row = row from, col = (if col to > col from then 7 else 0)\<rparr>
        then None
      else if mv_isCastling move' \<and> q =
           \<lparr>row = row from, col = (if col to > col from then 5 else 3)\<rparr>
        then cell s \<lparr>row = row from, col = (if col to > col from then 7 else 0)\<rparr>
      else cell s q)" if "isValidPosition q" for q
    using handleSpecialMoves_cell[OF wf f(9) _ _ _ _ _ f(2) that vc] by simp
  have c': "cell s' q = (if q = from then None else if q = to
      then Some (piece\<lparr>hasMoved := True\<rparr>) else cell s2 q)" if "isValidPosition q" for q
    using f(11)[of q] w2 f(2,3) that by (simp add: cell_setCell)
  show ?thesis
  proof (rule that[OF f(5) f(2) f(3) f(10) f(12)])
    show "cell s' from = None" using c'[OF f(2)] by simp
    show "cell s' to = Some (piece\<lparr>hasMoved := True\<rparr>)" using c'[OF f(3)] f(4) by simp
    fix q assume q: "isValidPosition q" "q \<noteq> from" "q \<noteq> to"
    show "cell s' q =
     (if mv_isEnPassant move' \<and> q =
           \<lparr>row = (if pcolor piece = White then row to + 1 else row to - 1), col = col to\<rparr> then None
      else if mv_isCastling move' \<and> q =
           \<lparr>row = row from, col = (if col to > col from then 7 else 0)\<rparr>
        then None
      else if mv_isCastling move' \<and> q =
           \<lparr>row = row from, col = (if col to > col from then 5 else 3)\<rparr>
        then cell s \<lparr>row = row from, col = (if col to > col from then 7 else 0)\<rparr>
      else cell s q)"
      using c'[OF q(1)] q(2,3) c2[OF q(1)] by simp
  qed
qed

lemma special_flags_by_move:
  assumes wf: "wf s" and mk: "makeMove s from to promotionPiece = Inr (True, s')"
    and p: "cell s from = Some piece"
  shows "mv_isCastling (last (gameHistory s')) \<longrightarrow> ptype piece = King \<and> \<bar>col to - col from\<bar> = 2"
    and "mv_isEnPassant (last (gameHistory s')) \<longrightarrow> ptype piece = Pawn \<and> enPassantTarget s = Some to"
proof -
  from makeMove_success_facts[OF wf mk] obtain piece' move' s2 where f:
    "\<not> isGameOver s" "isValidPosition from" "isValidPosition to" "to \<noteq> from"
    "cell s from = Some piece'" "pcolor piece' = currentPlayer s"
    "to \<in> set (calculatePossibleMoves s from piece' False)"
    "to \<in> set (legalMoves s from)"
    "handleSpecialMoves s \<lparr>mv_from = from, mv_to = to, mv_piece = piece',
        mv_capturedPiece = cell s to, mv_isEnPassant = False,
        mv_isCastling = False, mv_promotionPiece = None\<rparr> promotionPiece = (move', s2)"
    "wf s'"
    "\<And>q. cell s' q = cell (setCell (setCell s2 to (Some (piece'\<lparr>hasMoved := True\<rparr>))) from None) q"
    "gameHistory s' = gameHistory s @ [move']"
    "enPassantTarget s' = enPassantTarget (updateEnPassantTarget s move')"
    "checkGameEnd (applyMove s from to piece' promotionPiece) = Inr s'"
    by blast
  have pp: "piece' = piece" using f(5) p by simp
  note fs = handleSpecialMoves_flags[OF f(9), simplified]
  have l: "last (gameHistory s') = move'" using f(12) by simp
  have pawn_cols: "\<bar>col to - col from\<bar> \<le> 1" if "ptype piece = Pawn"
  proof -
    from that f(7) have "to \<in> set (getPawnMoves s from (pcolor piece))"
      by (simp add: calculatePossibleMoves.simps pp)
    from getPawnMoves_member[OF this] show ?thesis by auto
  qed
  show "mv_isCastling (last (gameHistory s')) \<longrightarrow> ptype piece = King \<and> \<bar>col to - col from\<bar> = 2"
  proof
    assume "mv_isCastling (last (gameHistory s'))"
    with l fs(6) have k: "ptype (mv_piece move') = King" and d: "\<bar>col to - col from\<bar> = 2"
      by simp_all
    from d pawn_cols have "ptype piece \<noteq> Pawn" by auto
    with k fs(5) d show "ptype piece = King \<and> \<bar>col to - col from\<bar> = 2" by (simp add: pp)
  qed
  show "mv_isEnPassant (last (gameHistory s')) \<longrightarrow> ptype piece = Pawn \<and> enPassantTarget s = Some to"
  proof
    assume "mv_isEnPassant (last (gameHistory s'))"
    with l fs(7) have k: "ptype (mv_piece move') = Pawn" and e: "enPassantTarget s = Some to"
      by simp_all
    from k fs(5) have "ptype piece = Pawn" by (auto simp: pp split: if_splits)
    with e show "ptype piece = Pawn \<and> enPassantTarget s = Some to" by simp
  qed
qed

text \<open>
  Claim C10 (board frame of the executor). After a call of \<^verbatim>\<open>makeMove(from, to)\<close> that returns
  true on a well-formed board, \<^verbatim>\<open>from\<close> is empty, \<^verbatim>\<open>to\<close> holds the piece that stood on
  \<^verbatim>\<open>from\<close> with \<^verbatim>\<open>hasMoved = true\<close>, and every other square of the board holds what it held
  before, except, when the move is castling (the piece is a king and moves two columns), the
  rook's corner and the rook's destination in the king's row, and, when the move is en passant
  (the piece is a pawn and moves onto the en passant target), the captured pawn's square.
\<close>

theorem board_frame:
  assumes "wf s" "makeMove s from to promotionPiece = Inr (True, s')"
  shows "\<exists>piece. getPiece s from = Inr (Some piece)
     \<and> getPiece s' from = Inr None
     \<and> getPiece s' to = Inr (Some (piece\<lparr>hasMoved := True\<rparr>))
     \<and> (\<forall>q. isValidPosition q \<and> q \<noteq> from \<and> q \<noteq> to
            \<and> (ptype piece = King \<and> \<bar>col to - col from\<bar> = 2 \<longrightarrow>
                  q \<noteq> \<lparr>row = row from, col = (if col to > col from then 7 else 0)\<rparr>
                  \<and> q \<noteq> \<lparr>row = row from, col = (if col to > col from then 5 else 3)\<rparr>)
            \<and> (ptype piece = Pawn \<and> enPassantTarget s = Some to \<longrightarrow>
                  q \<noteq> \<lparr>row = (if pcolor piece = White then row to + 1 else row to - 1),
                         col = col to\<rparr>)
          \<longrightarrow> getPiece s' q = getPiece s q)"
proof -
  from moved_cells[OF assms] obtain piece move' where f:
    "cell s from = Some piece" "isValidPosition from" "isValidPosition to" "wf s'"
    "gameHistory s' = gameHistory s @ [move']"
    "cell s' from = None" "cell s' to = Some (piece\<lparr>hasMoved := True\<rparr>)"
    "\<And>q. isValidPosition q \<Longrightarrow> q \<noteq> from \<Longrightarrow> q \<noteq> to \<Longrightarrow> cell s' q =
     (if mv_isEnPassant move' \<and> q =
           \<lparr>row = (if pcolor piece = White then row to + 1 else row to - 1), col = col to\<rparr> then None
      else if mv_isCastling move' \<and> q =
           \<lparr>row = row from, col = (if col to > col from then 7 else 0)\<rparr>
        then None
      else if mv_isCastling move' \<and> q =
           \<lparr>row = row from, col = (if col to > col from then 5 else 3)\<rparr>
        then cell s \<lparr>row = row from, col = (if col to > col from then 7 else 0)\<rparr>
      else cell s q)"
    by blast
  have l: "last (gameHistory s') = move'" using f(5) by simp
  note kind = special_flags_by_move[OF assms f(1), unfolded l]
  show ?thesis
  proof (intro exI[of _ piece] conjI allI impI)
    show "getPiece s from = Inr (Some piece)"
      using getPiece_valid[OF assms(1) f(2)] f(1) by simp
    show "getPiece s' from = Inr None" using getPiece_valid[OF f(4) f(2)] f(6) by simp
    show "getPiece s' to = Inr (Some (piece\<lparr>hasMoved := True\<rparr>))"
      using getPiece_valid[OF f(4) f(3)] f(7) by simp
  next
    fix q
    assume q: "isValidPosition q \<and> q \<noteq> from \<and> q \<noteq> to
            \<and> (ptype piece = King \<and> \<bar>col to - col from\<bar> = 2 \<longrightarrow>
                  q \<noteq> \<lparr>row = row from, col = (if col to > col from then 7 else 0)\<rparr>
                  \<and> q \<noteq> \<lparr>row = row from, col = (if col to > col from then 5 else 3)\<rparr>)
            \<and> (ptype piece = Pawn \<and> enPassantTarget s = Some to \<longrightarrow>
                  q \<noteq> \<lparr>row = (if pcolor piece = White then row to + 1 else row to - 1),
                         col = col to\<rparr>)"
    then have "cell s' q = cell s q" using f(8)[of q] kind by auto
    with q show "getPiece s' q = getPiece s q"
      using getPiece_valid[OF f(4), of q] getPiece_valid[OF assms(1), of q] by simp
  qed
qed

lemma reset_eq: "reset s = newGame"
  by (simp add: reset_def newGame_def)

lemma makeMove_wf:
  assumes "wf s" "makeMove s from to promotionPiece = Inr (ok, s')"
  shows "wf s'"
proof (cases ok)
  case True
  with assms show ?thesis by (auto elim: makeMove_success_facts)
next
  case False
  with assms makeMove_failure[OF assms(1), of "from" to promotionPiece s'] show ?thesis by simp
qed

lemma reachable_wf: "reachable s \<Longrightarrow> wf s"
  by (induction rule: reachable.induct) (auto simp: wf_newGame reset_eq intro: makeMove_wf)

lemma makeMove_winner:
  assumes "wf s" "makeMove s from to promotionPiece = Inr (ok, s')"
    "\<not> isGameOver s \<longrightarrow> winner s = None"
  shows "\<not> isGameOver s' \<longrightarrow> winner s' = None"
proof (cases ok)
  case False
  with assms makeMove_failure[OF assms(1), of "from" to promotionPiece s'] show ?thesis by simp
next
  case True
  with assms obtain piece where p: "\<not> isGameOver s"
    "checkGameEnd (applyMove s from to piece promotionPiece) = Inr s'"
    by (auto elim: makeMove_success)
  have wa: "wf (applyMove s from to piece promotionPiece)"
    using assms(1) by (simp add: applyMove_fields)
  from p(2) show ?thesis
    unfolding checkGameEnd_eq[OF wa] using p(1) assms(3)
    by (auto simp: applyMove_fields split: if_splits)
qed

lemma reachable_winner: "reachable s \<Longrightarrow> \<not> isGameOver s \<longrightarrow> winner s = None"
proof (induction rule: reachable.induct)
  case reachable_new
  show ?case by (simp add: newGame_def)
next
  case (reachable_move s "from" to promotionPiece ok s')
  then show ?case using makeMove_winner[OF reachable_wf] by blast
next
  case (reachable_reset s)
  show ?case by (simp add: reset_eq newGame_def)
qed

lemma enPassant_step:
  assumes wf: "wf s" and mk: "makeMove s from to promotionPiece = Inr (True, s')"
  obtains piece move' where "cell s from = Some piece" "isValidPosition from"
    "gameHistory s' = gameHistory s @ [move']" "mv_from move' = from" "mv_to move' = to"
    "(ptype (mv_piece move') = Pawn \<and> \<bar>row to - row from\<bar> = 2)
       = (ptype piece = Pawn \<and> \<bar>row to - row from\<bar> = 2)"
    "enPassantTarget s' =
       (if ptype piece = Pawn \<and> \<bar>row to - row from\<bar> = 2
        then Some \<lparr>row = (row from + row to) div 2, col = col to\<rparr> else None)"
proof -
  from makeMove_success_facts[OF wf mk] obtain piece move' s2 where f:
    "\<not> isGameOver s" "isValidPosition from" "isValidPosition to" "to \<noteq> from"
    "cell s from = Some piece" "pcolor piece = currentPlayer s"
    "to \<in> set (calculatePossibleMoves s from piece False)"
    "to \<in> set (legalMoves s from)"
    "handleSpecialMoves s \<lparr>mv_from = from, mv_to = to, mv_piece = piece,
        mv_capturedPiece = cell s to, mv_isEnPassant = False,
        mv_isCastling = False, mv_promotionPiece = None\<rparr> promotionPiece = (move', s2)"
    "wf s'"
    "\<And>q. cell s' q = cell (setCell (setCell s2 to (Some (piece\<lparr>hasMoved := True\<rparr>))) from None) q"
    "gameHistory s' = gameHistory s @ [move']"
    "enPassantTarget s' = enPassantTarget (updateEnPassantTarget s move')"
    "checkGameEnd (applyMove s from to piece promotionPiece) = Inr s'"
    by blast
  note fs = handleSpecialMoves_flags[OF f(9), simplified]
  have geo: "row to = row from + 2 * (if pcolor piece = White then -1 else 1)
      \<and> row from = (if pcolor piece = White then 6 else 1)"
    if "ptype piece = Pawn" "\<bar>row to - row from\<bar> = 2"
  proof -
    from that(1) f(7) have "to \<in> set (getPawnMoves s from (pcolor piece))"
      by (simp add: calculatePossibleMoves.simps)
    from getPawnMoves_member[OF this] that(2) show ?thesis by (auto split: if_splits)
  qed
  have tyeq: "(ptype (mv_piece move') = Pawn \<and> \<bar>row to - row from\<bar> = 2)
       = (ptype piece = Pawn \<and> \<bar>row to - row from\<bar> = 2)"
    using fs(5) geo by (auto split: if_splits option.splits)
  have "enPassantTarget s' =
       (if ptype (mv_piece move') = Pawn \<and> \<bar>row to - row from\<bar> = 2
        then Some \<lparr>row = (if pcolor piece = White then row to + 1 else row to - 1), col = col to\<rparr>
        else None)"
    using f(13) fs(1,2,3) by (simp add: updateEnPassantTarget_def Let_def)
  also have "\<dots> = (if ptype piece = Pawn \<and> \<bar>row to - row from\<bar> = 2
        then Some \<lparr>row = (row from + row to) div 2, col = col to\<rparr> else None)"
    unfolding tyeq using geo by (auto split: if_splits)
  finally show ?thesis
    using that[OF f(5) f(2) f(12) fs(1) fs(2) tyeq] by blast
qed

lemma enPassant_history:
  "reachable s \<Longrightarrow>
     (case enPassantTarget s of
        None \<Rightarrow> True
      | Some t \<Rightarrow>
          gameHistory s \<noteq> []
          \<and> ptype (mv_piece (last (gameHistory s))) = Pawn
          \<and> \<bar>row (mv_to (last (gameHistory s))) - row (mv_from (last (gameHistory s)))\<bar> = 2
          \<and> t = \<lparr>row = (row (mv_from (last (gameHistory s))) + row (mv_to (last (gameHistory s)))) div 2,
                  col = col (mv_to (last (gameHistory s)))\<rparr>)"
proof (induction rule: reachable.induct)
  case reachable_new
  show ?case by (simp add: newGame_def)
next
  case (reachable_reset s)
  show ?case by (simp add: reset_eq newGame_def)
next
  case (reachable_move s "from" to promotionPiece ok s')
  show ?case
  proof (cases ok)
    case False
    with reachable_move makeMove_failure[OF reachable_wf, of s "from" to promotionPiece s']
    have eq: "s' = s" by simp
    show ?thesis unfolding eq using reachable_move.IH .
  next
    case True
    with reachable_move have mk: "makeMove s from to promotionPiece = Inr (True, s')" by simp
    obtain piece move' where e0: "cell s from = Some piece" "isValidPosition from"
      and e: "gameHistory s' = gameHistory s @ [move']"
      "mv_from move' = from" "mv_to move' = to"
      "(ptype (mv_piece move') = Pawn \<and> \<bar>row to - row from\<bar> = 2)
         = (ptype piece = Pawn \<and> \<bar>row to - row from\<bar> = 2)"
      "enPassantTarget s' =
         (if ptype piece = Pawn \<and> \<bar>row to - row from\<bar> = 2
          then Some \<lparr>row = (row from + row to) div 2, col = col to\<rparr> else None)"
      by (rule enPassant_step[OF reachable_wf[OF reachable_move.hyps(1)] mk])
    show ?thesis
    proof (cases "ptype piece = Pawn \<and> \<bar>row to - row from\<bar> = 2")
      case False
      with e(5) show ?thesis by simp
    next
      case True
      with e(4) have ty: "ptype (mv_piece move') = Pawn" by simp
      have ep: "enPassantTarget s' = Some \<lparr>row = (row from + row to) div 2, col = col to\<rparr>"
        using e(5) True by simp
      have l: "last (gameHistory s') = move'" "gameHistory s' \<noteq> []" using e(1) by simp_all
      show ?thesis unfolding ep l using ty True e(2,3) l(2) by simp
    qed
  qed
qed

text \<open>
  Claim C7 (en passant window). In every reachable state a non-empty \<^verbatim>\<open>enPassantTarget\<close> is the
  square passed over by the last move of the history, which was a two-square pawn advance; and
  every call of \<^verbatim>\<open>makeMove\<close> that returns true recomputes the target without reading the old
  one: it is the passed-over square if the piece moved from \<^verbatim>\<open>from\<close> is a pawn advancing two
  rows, and empty otherwise.
\<close>

theorem enPassant_window:
  assumes "reachable s"
  shows "(\<forall>t. enPassantTarget s = Some t \<longrightarrow>
            gameHistory s \<noteq> []
            \<and> ptype (mv_piece (last (gameHistory s))) = Pawn
            \<and> \<bar>row (mv_to (last (gameHistory s))) - row (mv_from (last (gameHistory s)))\<bar> = 2
            \<and> t = \<lparr>row = (row (mv_from (last (gameHistory s))) + row (mv_to (last (gameHistory s)))) div 2,
                    col = col (mv_to (last (gameHistory s)))\<rparr>)
       \<and> (\<forall>from to promotionPiece s'.
            makeMove s from to promotionPiece = Inr (True, s') \<longrightarrow>
            (\<exists>piece. getPiece s from = Inr (Some piece)
               \<and> enPassantTarget s' =
                   (if ptype piece = Pawn \<and> \<bar>row to - row from\<bar> = 2
                    then Some \<lparr>row = (row from + row to) div 2, col = col to\<rparr> else None)))"
proof (intro conjI allI impI)
  fix t assume t: "enPassantTarget s = Some t"
  with enPassant_history[OF assms]
  show "gameHistory s \<noteq> []"
    "ptype (mv_piece (last (gameHistory s))) = Pawn"
    "\<bar>row (mv_to (last (gameHistory s))) - row (mv_from (last (gameHistory s)))\<bar> = 2"
    "t = \<lparr>row = (row (mv_from (last (gameHistory s))) + row (mv_to (last (gameHistory s)))) div 2,
          col = col (mv_to (last (gameHistory s)))\<rparr>"
    by simp_all
next
  fix "from" to promotionPiece s'
  assume mk: "makeMove s from to promotionPiece = Inr (True, s')"
  note wf = reachable_wf[OF assms]
  obtain piece move' where e: "cell s from = Some piece" "isValidPosition from"
      and e1: "gameHistory s' = gameHistory s @ [move']"
      "mv_from move' = from" "mv_to move' = to"
      "(ptype (mv_piece move') = Pawn \<and> \<bar>row to - row from\<bar> = 2)
         = (ptype piece = Pawn \<and> \<bar>row to - row from\<bar> = 2)"
      and e3: "enPassantTarget s' =
         (if ptype piece = Pawn \<and> \<bar>row to - row from\<bar> = 2
          then Some \<lparr>row = (row from + row to) div 2, col = col to\<rparr> else None)"
    by (rule enPassant_step[OF wf mk])
  from getPiece_valid[OF wf e(2)] e(1) have "getPiece s from = Inr (Some piece)" by simp
  with e3 show "\<exists>piece. getPiece s from = Inr (Some piece)
               \<and> enPassantTarget s' =
                   (if ptype piece = Pawn \<and> \<bar>row to - row from\<bar> = 2
                    then Some \<lparr>row = (row from + row to) div 2, col = col to\<rparr> else None)"
    by blast
qed

theorem enPassant_window_witness:
  "reachable newGame
   \<and> (\<exists>s'. makeMove newGame \<lparr>row = 6, col = 4\<rparr> \<lparr>row = 4, col = 4\<rparr> None = Inr (True, s')
        \<and> enPassantTarget s' = Some \<lparr>row = 5, col = 4\<rparr>)"
proof -
  from first_move_ok obtain s' where
    m: "makeMove newGame \<lparr>row = 6, col = 4\<rparr> \<lparr>row = 4, col = 4\<rparr> None = Inr (True, s')" ..
  have g: "getPiece newGame \<lparr>row = 6, col = 4\<rparr> =
      Inr (Some \<lparr>ptype = Pawn, pcolor = White, hasMoved = False\<rparr>)"
    by (simp add: getPiece_def newGame_def initializeBoard_def pieceOrder_def)
  from enPassant_window[OF reachable_new] m
  obtain piece where p: "getPiece newGame \<lparr>row = 6, col = 4\<rparr> = Inr (Some piece)"
    "enPassantTarget s' =
       (if ptype piece = Pawn \<and> \<bar>row \<lparr>row = 4, col = 4\<rparr> - row \<lparr>row = 6, col = 4\<rparr>\<bar> = (2::int)
        then Some \<lparr>row = (row \<lparr>row = 6, col = 4\<rparr> + row \<lparr>row = 4, col = 4\<rparr>) div 2,
                     col = col \<lparr>row = 4, col = 4\<rparr>\<rparr> else None)"
    by blast
  from p(1) g have "piece = \<lparr>ptype = Pawn, pcolor = White, hasMoved = False\<rparr>" by simp
  with p(2) have "enPassantTarget s' = Some \<lparr>row = 5, col = 4\<rparr>" by simp
  with m reachable_new show ?thesis by blast
qed

lemma sameView_cell: "sameView s t \<Longrightarrow> cell s p = cell t p"
  by (simp add: sameView_def cell_def)

lemma sameView_setCell: "sameView s t \<Longrightarrow> sameView (setCell s p v) (setCell t p v)"
  by (simp add: sameView_def setCell_def)

lemma sameView_getPawnMoves:
  assumes "sameView s t"
  shows "getPawnMoves s from color = getPawnMoves t from color"
proof -
  have c: "cell s = cell t" using sameView_cell[OF assms] by (rule ext)
  have e: "enPassantTarget s = enPassantTarget t" using assms by (simp add: sameView_def)
  show ?thesis unfolding getPawnMoves_def c e ..
qed

lemma sameView_ray:
  assumes "sameView s t"
  shows "ray s from rowDir colDir i = ray t from rowDir colDir i"
  using assms
proof (induction s "from" rowDir colDir i rule: ray.induct)
  case (1 s "from" rowDir colDir i)
  have c: "cell s = cell t" using sameView_cell[OF "1.prems"] by (rule ext)
  show ?case
  proof (cases "i < 8")
    case False
    then show ?thesis by (simp add: ray.simps[of _ "from" rowDir colDir i])
  next
    case True
    define pos where "pos = \<lparr>row = row from + i * rowDir, col = col from + i * colDir\<rparr>"
    show ?thesis
    proof (cases "isValidPosition pos \<and> cell s pos = None")
      case False
      then show ?thesis
        using True unfolding ray.simps[of s "from" rowDir colDir i] ray.simps[of t "from" rowDir colDir i]
        by (auto simp: pos_def c Let_def split: option.splits)
    next
      case v: True
      then have "ray s from rowDir colDir (i + 1) = ray t from rowDir colDir (i + 1)"
        using "1.IH"[of pos] True pos_def "1.prems" by simp
      then show ?thesis
        using True v unfolding ray.simps[of s "from" rowDir colDir i] ray.simps[of t "from" rowDir colDir i]
        by (auto simp: pos_def c Let_def split: option.splits)
    qed
  qed
qed

lemma sameView_sliding:
  assumes "sameView s t"
  shows "getRookMoves s from = getRookMoves t from" "getBishopMoves s from = getBishopMoves t from"
  by (simp_all add: getRookMoves_def getBishopMoves_def sameView_ray[OF assms])

lemma sameView_offsetMoves:
  assumes "sameView s t"
  shows "offsetMoves s from offsets = offsetMoves t from offsets"
proof -
  have c: "cell s = cell t" using sameView_cell[OF assms] by (rule ext)
  show ?thesis unfolding offsetMoves_def c ..
qed

lemma sameView_attack:
  assumes "sameView s t"
  shows "calculatePossibleMoves s from piece True = calculatePossibleMoves t from piece True"
  by (simp add: calculatePossibleMoves.simps getKingMoves_eq kingSteps_def getKnightMoves_def
        sameView_getPawnMoves[OF assms] sameView_sliding[OF assms] sameView_offsetMoves[OF assms]
        split: PieceType.splits)

lemma sameView_isInCheck:
  assumes "sameView s t"
  shows "isInCheck s color = isInCheck t color"
proof -
  have c: "cell s = cell t" using sameView_cell[OF assms] by (rule ext)
  have a: "\<And>p q. calculatePossibleMoves s p q True = calculatePossibleMoves t p q True"
    using sameView_attack[OF assms] .
  show ?thesis unfolding isInCheck.simps[of s] isInCheck.simps[of t] findKing_def c a ..
qed

lemma sameView_candidates:
  assumes "sameView s t"
  shows "calculatePossibleMoves s from piece forCheckValidation
       = calculatePossibleMoves t from piece forCheckValidation"
proof -
  have c: "cell s = cell t" using sameView_cell[OF assms] by (rule ext)
  have k: "getKingMoves s from forCheckValidation = getKingMoves t from forCheckValidation"
    unfolding getKingMoves_eq canCastleKingside_def canCastleQueenside_def kingSteps_def
      sameView_offsetMoves[OF assms] sameView_isInCheck[OF assms] c ..
  show ?thesis
    by (simp add: calculatePossibleMoves.simps k getKnightMoves_def
        sameView_getPawnMoves[OF assms] sameView_sliding[OF assms] sameView_offsetMoves[OF assms]
        split: PieceType.splits)
qed

lemma sameView_wouldBeInCheck:
  assumes "sameView s t"
  shows "fst (wouldBeInCheck s from to) = fst (wouldBeInCheck t from to)"
proof -
  have c: "cell s = cell t" using sameView_cell[OF assms] by (rule ext)
  show ?thesis
    unfolding wouldBeInCheck_def Let_def fst_conv c
    by (intro sameView_isInCheck sameView_setCell assms)
qed

lemma sameView_legalMoves:
  assumes "sameView s t" "currentPlayer s = currentPlayer t"
  shows "legalMoves s from = legalMoves t from"
proof -
  have c: "cell s = cell t" using sameView_cell[OF assms(1)] by (rule ext)
  have w: "\<And>to. fst (wouldBeInCheck s from to) = fst (wouldBeInCheck t from to)"
    using sameView_wouldBeInCheck[OF assms(1)] .
  have k: "\<And>piece. calculatePossibleMoves s from piece False = calculatePossibleMoves t from piece False"
    using sameView_candidates[OF assms(1)] .
  show ?thesis unfolding legalMoves_def c w k assms(2) ..
qed

lemma sameView_anyLegalMove:
  assumes "sameView s t" "currentPlayer s = currentPlayer t"
  shows "anyLegalMove s color = anyLegalMove t color"
proof -
  have c: "cell s = cell t" using sameView_cell[OF assms(1)] by (rule ext)
  have l: "legalMoves s = legalMoves t" using sameView_legalMoves[OF assms] by (rule ext)
  show ?thesis unfolding anyLegalMove_def c l ..
qed

lemma anyLegalMove_iff:
  "anyLegalMove s color \<longleftrightarrow>
     (\<exists>pos piece. isValidPosition pos \<and> cell s pos = Some piece \<and> pcolor piece = color
        \<and> legalMoves s pos \<noteq> [])"
  by (auto simp: anyLegalMove_def list_ex_iff squares_member split: option.splits)

lemma checkGameEnd_result:
  assumes wa: "wf a" and c: "checkGameEnd a = Inr s'" and g: "\<not> isGameOver a" "winner a = None"
  shows "isGameOver s' \<longleftrightarrow> \<not> anyLegalMove s' (currentPlayer s')"
    and "isGameOver s' \<Longrightarrow> winner s' =
      Some (if isInCheck s' (currentPlayer s')
            then Color (if currentPlayer s' = White then Black else White) else Draw)"
    and "\<not> isGameOver s' \<Longrightarrow> winner s' = None"
proof -
  have v: "sameView a s'" "currentPlayer a = currentPlayer s'"
    using checkGameEnd_frame[OF wa c] by (simp_all add: sameView_def)
  note al = sameView_anyLegalMove[OF v, of "currentPlayer a"]
  note ic = sameView_isInCheck[OF v(1), of "currentPlayer a"]
  show "isGameOver s' \<longleftrightarrow> \<not> anyLegalMove s' (currentPlayer s')"
    using c g al unfolding checkGameEnd_eq[OF wa] v(2)[symmetric]
    by (auto split: if_splits)
  show "winner s' = Some (if isInCheck s' (currentPlayer s')
            then Color (if currentPlayer s' = White then Black else White) else Draw)"
    if "isGameOver s'"
    using c g ic that unfolding checkGameEnd_eq[OF wa] v(2)[symmetric]
    by (auto split: if_splits)
  show "winner s' = None" if "\<not> isGameOver s'"
    using c g that unfolding checkGameEnd_eq[OF wa]
    by (auto split: if_splits)
qed

text \<open>
  What \<^verbatim>\<open>checkGameEnd\<close> decides, in the engine's own terms: after a call of \<^verbatim>\<open>makeMove\<close> that
  returns true in a reachable state, the game is finished exactly when \<^verbatim>\<open>getPossibleMoves\<close>
  returns the empty list for every piece of the new current player; the winner is then the
  other colour if \<^verbatim>\<open>isInCheck\<close> holds for that player and a draw if not, and it stays empty
  while the game goes on.
\<close>

lemma game_end_by_filter:
  assumes "reachable s" "makeMove s from to promotionPiece = Inr (True, s')"
  shows "(isGameFinished s' \<longleftrightarrow>
            \<not> (\<exists>pos piece moves s''. getPiece s' pos = Inr (Some piece)
                  \<and> pcolor piece = getCurrentPlayer s'
                  \<and> getPossibleMoves s' pos = Inr (moves, s'') \<and> moves \<noteq> []))
       \<and> (isGameFinished s' \<longrightarrow>
            getWinner s' =
              Some (if isInCheck s' (getCurrentPlayer s')
                    then Color (if getCurrentPlayer s' = White then Black else White)
                    else Draw))
       \<and> (\<not> isGameFinished s' \<longrightarrow> getWinner s' = None)"
proof -
  note wf = reachable_wf[OF assms(1)]
  from makeMove_success[OF wf assms(2)] obtain piece where p: "\<not> isGameOver s"
    "checkGameEnd (applyMove s from to piece promotionPiece) = Inr s'" by blast
  let ?a = "applyMove s from to piece promotionPiece"
  have wa: "wf ?a" using wf by (simp add: applyMove_fields)
  have g: "\<not> isGameOver ?a" "winner ?a = None"
    using p(1) reachable_winner[OF assms(1)] by (simp_all add: applyMove_fields)
  note r = checkGameEnd_result[OF wa p(2) g]
  have ws: "wf s'" using wf_cong_board[OF checkGameEnd_frame(1)[OF wa p(2)]] wa by simp
  have ex: "(\<exists>pos piece moves s''. getPiece s' pos = Inr (Some piece)
                  \<and> pcolor piece = currentPlayer s'
                  \<and> getPossibleMoves s' pos = Inr (moves, s'') \<and> moves \<noteq> [])
            \<longleftrightarrow> anyLegalMove s' (currentPlayer s')"
  proof
    assume "\<exists>pos piece moves s''. getPiece s' pos = Inr (Some piece)
                  \<and> pcolor piece = currentPlayer s'
                  \<and> getPossibleMoves s' pos = Inr (moves, s'') \<and> moves \<noteq> []"
    then obtain pos piece moves s'' where e: "getPiece s' pos = Inr (Some piece)"
      "pcolor piece = currentPlayer s'" "getPossibleMoves s' pos = Inr (moves, s'')" "moves \<noteq> []"
      by blast
    from e(1) have v: "isValidPosition pos" and c: "cell s' pos = Some piece"
      unfolding getPiece_wf[OF ws] by (auto simp: isValidPosition_def split: if_splits)
    from e(3,4) v have "legalMoves s' pos \<noteq> []"
      unfolding getPossibleMoves_eq[OF ws] by (auto simp: isValidPosition_def split: if_splits)
    with v c e(2) show "anyLegalMove s' (currentPlayer s')"
      unfolding anyLegalMove_iff by blast
  next
    assume "anyLegalMove s' (currentPlayer s')"
    then obtain pos piece where e: "isValidPosition pos" "cell s' pos = Some piece"
      "pcolor piece = currentPlayer s'" "legalMoves s' pos \<noteq> []"
      unfolding anyLegalMove_iff by blast
    have "getPiece s' pos = Inr (Some piece)" using getPiece_valid[OF ws e(1)] e(2) by simp
    moreover have "getPossibleMoves s' pos = Inr (legalMoves s' pos, s')"
      using e(1) unfolding getPossibleMoves_eq[OF ws] by (auto simp: isValidPosition_def)
    ultimately show "\<exists>pos piece moves s''. getPiece s' pos = Inr (Some piece)
                  \<and> pcolor piece = currentPlayer s'
                  \<and> getPossibleMoves s' pos = Inr (moves, s'') \<and> moves \<noteq> []"
      using e(3,4) by blast
  qed
  show ?thesis
    unfolding isGameFinished_def getWinner_def getCurrentPlayer_def ex
    using r by blast
qed

lemma legalMoves_valid:
  assumes "isValidPosition from" "to \<in> set (legalMoves s from)"
  shows "isValidPosition to"
proof (cases "cell s from")
  case None
  with assms(2) show ?thesis by (simp add: legalMoves_def)
next
  case (Some piece)
  from legalMoves_candidate(1)[OF assms(2) Some] candidates_valid[OF assms(1)]
  show ?thesis by blast
qed

text \<open>
  Claim C3, as stated, fails: a row index outside the grid makes \<^verbatim>\<open>getPiece(from)\<close> index
  \<^verbatim>\<open>undefined\<close>, and \<^verbatim>\<open>makeMove\<close> raises a TypeError instead of returning false.
\<close>

theorem out_of_range_origin_raises:
  "makeMove newGame \<lparr>row = 8, col = 0\<rparr> \<lparr>row = 0, col = 0\<rparr> None = Inl TypeError"
  by (simp add: makeMove_def getPiece_def newGame_def initializeBoard_def)

text \<open>
  Claim C3, amended, for integer coordinates. On a well-formed board \<^verbatim>\<open>makeMove\<close> returns a
  boolean whenever the game is already over or the row of \<^verbatim>\<open>from\<close> is an integer in 0..7, for
  every integer column of \<^verbatim>\<open>from\<close>, every \<^verbatim>\<open>to\<close> with integer coordinates and every promotion
  argument; if \<^verbatim>\<open>from\<close> or \<^verbatim>\<open>to\<close> is then off the board the result is false and the state
  is unchanged. When the game is not over and the row of \<^verbatim>\<open>from\<close> is an integer outside
  0..7, the call raises a TypeError.
\<close>

theorem makeMove_out_of_range:
  assumes "wf s"
  shows "((isGameOver s \<or> (0 \<le> row from \<and> row from < 8)) \<longrightarrow>
            (\<exists>ok s'. makeMove s from to promotionPiece = Inr (ok, s')
               \<and> (\<not> isValidPosition from \<or> \<not> isValidPosition to \<longrightarrow> \<not> ok \<and> s' = s)))
       \<and> (\<not> isGameOver s \<and> (row from < 0 \<or> 8 \<le> row from) \<longrightarrow>
            makeMove s from to promotionPiece = Inl TypeError)"
proof (intro conjI impI)
  assume "\<not> isGameOver s \<and> (row from < 0 \<or> 8 \<le> row from)"
  then show "makeMove s from to promotionPiece = Inl TypeError"
    unfolding makeMove_eq[OF assms] by auto
next
  assume a: "isGameOver s \<or> (0 \<le> row from \<and> row from < 8)"
  have ce: "\<And>piece. \<exists>s8. checkGameEnd (applyMove s from to piece promotionPiece) = Inr s8"
    using checkGameEnd_eq[of "applyMove s from to _ promotionPiece"] assms
    by (simp add: applyMove_fields)
  show "\<exists>ok s'. makeMove s from to promotionPiece = Inr (ok, s')
               \<and> (\<not> isValidPosition from \<or> \<not> isValidPosition to \<longrightarrow> \<not> ok \<and> s' = s)"
  proof (cases "isGameOver s \<or> \<not> isValidPosition from \<or> cell s from = None
      \<or> pcolor (the (cell s from)) \<noteq> currentPlayer s \<or> to \<notin> set (legalMoves s from)")
    case True
    with a have "makeMove s from to promotionPiece = Inr (False, s)"
      unfolding makeMove_eq[OF assms] by (auto simp: isValidPosition_def split: option.splits)
    then show ?thesis by (intro exI[of _ False] exI[of _ s]) simp
  next
    case False
    then obtain piece where p: "cell s from = Some piece" by auto
    from ce[of piece] obtain s8 where s8: "checkGameEnd (applyMove s from to piece promotionPiece) = Inr s8"
      by blast
    from False p s8 have "makeMove s from to promotionPiece = Inr (True, s8)"
      unfolding makeMove_eq[OF assms] by (auto simp: isValidPosition_def)
    moreover from False have "isValidPosition from" "isValidPosition to"
      using legalMoves_valid[of "from" to s] by auto
    ultimately show ?thesis by (intro exI[of _ True] exI[of _ s8]) simp
  qed
qed

theorem makeMove_out_of_range_witness:
  "wf newGame \<and> \<not> isValidPosition \<lparr>row = 9, col = 9\<rparr>
   \<and> makeMove newGame \<lparr>row = 6, col = 4\<rparr> \<lparr>row = 9, col = 9\<rparr> None = Inr (False, newGame)"
proof -
  have v: "\<not> isValidPosition \<lparr>row = 9, col = 9\<rparr>" by (simp add: isValidPosition_def)
  have r: "0 \<le> row \<lparr>row = 6, col = 4\<rparr> \<and> row \<lparr>row = 6, col = 4\<rparr> < (8::int)" by simp
  from makeMove_out_of_range[OF wf_newGame, of "\<lparr>row = 6, col = 4\<rparr>" "\<lparr>row = 9, col = 9\<rparr>" None] r v
  have "makeMove newGame \<lparr>row = 6, col = 4\<rparr> \<lparr>row = 9, col = 9\<rparr> None = Inr (False, newGame)"
    by auto
  with v wf_newGame show ?thesis by simp
qed

lemma legalStep_legalMoves:
  assumes "legalStep s from to"
  obtains piece where "isValidPosition from" "cell s from = Some piece"
    "pcolor piece = currentPlayer s" "to \<in> set (legalMoves s from)"
  using assms
  by (auto simp: legalStep_def legalMoves_def split: option.splits)

lemma advance_fields:
  "wf (advance s from to) = wf s"
  "isGameOver (advance s from to) = isGameOver s"
  "currentPlayer (advance s from to) = (if currentPlayer s = White then Black else White)"
  by (simp_all add: advance_def applyMove_fields)

lemma playStep:
  assumes wf: "wf s" and no: "\<not> isGameOver s" and l: "legalStep s from to"
    and n: "legalStep (advance s from to) from' to'"
  shows "makeMove s from to None = Inr (True, advance s from to)"
proof -
  from l obtain piece where p: "isValidPosition from" "cell s from = Some piece"
    "pcolor piece = currentPlayer s" "to \<in> set (legalMoves s from)"
    by (rule legalStep_legalMoves)
  have a: "advance s from to = applyMove s from to piece None"
    by (simp add: advance_def p(2))
  from n obtain piece' where q: "isValidPosition from'" "cell (advance s from to) from' = Some piece'"
    "pcolor piece' = currentPlayer (advance s from to)" "to' \<in> set (legalMoves (advance s from to) from')"
    by (rule legalStep_legalMoves)
  from q(4) have "legalMoves (advance s from to) from' \<noteq> []" by auto
  with q have any: "anyLegalMove (advance s from to) (currentPlayer (advance s from to))"
    unfolding anyLegalMove_iff by blast
  have "checkGameEnd (advance s from to) = Inr (advance s from to)"
    using checkGameEnd_eq[of "advance s from to"] wf any by (simp add: advance_fields)
  then show ?thesis
    using p no unfolding makeMove_eq[OF wf] a[symmetric]
    by (auto simp: isValidPosition_def a[symmetric])
qed

lemma legalGame_run:
  assumes "wf s" "\<not> isGameOver s" "legalGame s (ms @ [m])"
  shows "playMoves s ms = Inr (replicate (length ms) True, replay s ms)
       \<and> (reachable s \<longrightarrow> reachable (replay s ms))"
  using assms
proof (induction ms arbitrary: s)
  case Nil
  show ?case by simp
next
  case (Cons x ms)
  obtain a b where x: "x = (a, b)" by (cases x)
  from Cons.prems(3) have l: "legalStep s a b" and g: "legalGame (advance s a b) (ms @ [m])"
    by (simp_all add: x)
  obtain a' b' where n: "legalStep (advance s a b) a' b'"
    using g by (cases "ms @ [m]") auto
  have mk: "makeMove s a b None = Inr (True, advance s a b)"
    using playStep[OF Cons.prems(1,2) l n] .
  have ih: "playMoves (advance s a b) ms = Inr (replicate (length ms) True, replay (advance s a b) ms)
       \<and> (reachable (advance s a b) \<longrightarrow> reachable (replay (advance s a b) ms))"
    using Cons.IH[OF _ _ g] Cons.prems(1,2) by (simp add: advance_fields)
  have r: "reachable s \<Longrightarrow> reachable (advance s a b)"
    using reachable_move[OF _ mk] .
  show ?case using ih mk r by (simp add: x)
qed

lemma pinGame_legal: "legalGame newGame (pinGame @ [(sq 3 2, sq 2 1)])"
  by code_simp

lemma beforeCapture_reachable: "reachable beforeCapture"
  using legalGame_run[OF wf_newGame _ pinGame_legal] reachable_new
  by (simp add: beforeCapture_def newGame_def)

lemma beforeCapture_facts:
  "\<not> isGameOver beforeCapture" "currentPlayer beforeCapture = White"
  "\<not> isInCheck beforeCapture White"
  "legalMoves beforeCapture (sq 3 2) = [sq 2 1]"
  "legalStep beforeCapture (sq 3 2) (sq 2 1)"
  by code_simp+

lemma afterCapture_facts:
  "legalStep afterCapture (sq 0 0) (sq 1 0)"
  "isInCheck afterCapture White"
  "map (cell afterCapture) [sq 3 0, sq 3 1, sq 3 2, sq 3 3, sq 3 4] =
     [Some \<lparr>ptype = Queen, pcolor = Black, hasMoved = True\<rparr>, None, None, None,
      Some \<lparr>ptype = King, pcolor = White, hasMoved = True\<rparr>]"
  by code_simp+

text \<open>
  Claim C2 fails on the en passant capture. In the reachable state \<open>beforeCapture\<close> White is not
  in check and \<^verbatim>\<open>getPossibleMoves\<close> offers the pawn on c5 the capture onto b6; \<^verbatim>\<open>makeMove\<close>
  accepts it and removes the black pawn from b5, after which nothing stands between the black
  queen on a5 and the white king on e5: the mover's own king is in check after a move the
  legality filter let through.
\<close>

theorem enPassant_capture_exposes_king:
  "reachable beforeCapture
   \<and> getCurrentPlayer beforeCapture = White
   \<and> \<not> isInCheck beforeCapture White
   \<and> getPossibleMoves beforeCapture (sq 3 2) = Inr ([sq 2 1], beforeCapture)
   \<and> makeMove beforeCapture (sq 3 2) (sq 2 1) None = Inr (True, afterCapture)
   \<and> isInCheck afterCapture White
   \<and> map (cell afterCapture) [sq 3 0, sq 3 1, sq 3 2, sq 3 3, sq 3 4] =
       [Some \<lparr>ptype = Queen, pcolor = Black, hasMoved = True\<rparr>, None, None, None,
        Some \<lparr>ptype = King, pcolor = White, hasMoved = True\<rparr>]"
proof -
  note wf = reachable_wf[OF beforeCapture_reachable]
  have g: "getPossibleMoves beforeCapture (sq 3 2) = Inr ([sq 2 1], beforeCapture)"
    unfolding getPossibleMoves_eq[OF wf] using beforeCapture_facts(4) by (simp add: sq_def)
  have m: "makeMove beforeCapture (sq 3 2) (sq 2 1) None = Inr (True, afterCapture)"
    unfolding afterCapture_def
    by (rule playStep[OF wf beforeCapture_facts(1,5) afterCapture_facts(1)[unfolded afterCapture_def]])
  show ?thesis
    using beforeCapture_reachable beforeCapture_facts(2,3) g m afterCapture_facts(2,3)
    by (simp add: getCurrentPlayer_def)
qed

lemma handleSpecialMoves_promotion:
  assumes "handleSpecialMoves s move promotionPiece = (move', s2)"
  shows "mv_promotionPiece move' =
       (if ptype (mv_piece move) = Pawn \<and> (row (mv_to move) = 0 \<or> row (mv_to move) = 7)
        then Some (case promotionPiece of Some t \<Rightarrow> t | None \<Rightarrow> Queen)
        else mv_promotionPiece move)"
  using assms
  by (auto simp: handleSpecialMoves_def Let_def split: if_splits option.splits prod.splits)

text \<open>
  Claim C1 fails on every promotion. When a pawn moves to row 0 or row 7, \<^verbatim>\<open>handleSpecialMoves\<close>
  writes the promotion type into the history record and into the record's copy of the piece,
  but \<^verbatim>\<open>makeMove\<close> then stores \<^verbatim>\<open>{ ...piece, hasMoved: true }\<close> built from the piece as it
  stood on the origin: the destination holds a pawn, whatever promotion type was recorded.
\<close>

theorem promotion_leaves_pawn:
  assumes "wf s" "makeMove s from to promotionPiece = Inr (True, s')"
    "getPiece s from = Inr (Some piece)" "ptype piece = Pawn" "row to = 0 \<or> row to = 7"
  shows "getPiece s' to = Inr (Some \<lparr>ptype = Pawn, pcolor = pcolor piece, hasMoved = True\<rparr>)
       \<and> mv_promotionPiece (last (gameHistory s')) =
           Some (case promotionPiece of Some t \<Rightarrow> t | None \<Rightarrow> Queen)
       \<and> ptype (mv_piece (last (gameHistory s'))) =
           (case promotionPiece of Some t \<Rightarrow> t | None \<Rightarrow> Queen)"
proof -
  from makeMove_success_facts[OF assms(1,2)] obtain piece' move' s2 where f:
    "\<not> isGameOver s" "isValidPosition from" "isValidPosition to" "to \<noteq> from"
    "cell s from = Some piece'" "pcolor piece' = currentPlayer s"
    "to \<in> set (calculatePossibleMoves s from piece' False)"
    "to \<in> set (legalMoves s from)"
    "handleSpecialMoves s \<lparr>mv_from = from, mv_to = to, mv_piece = piece',
        mv_capturedPiece = cell s to, mv_isEnPassant = False,
        mv_isCastling = False, mv_promotionPiece = None\<rparr> promotionPiece = (move', s2)"
    "wf s'"
    "\<And>q. cell s' q = cell (setCell (setCell s2 to (Some (piece'\<lparr>hasMoved := True\<rparr>))) from None) q"
    "gameHistory s' = gameHistory s @ [move']"
    "enPassantTarget s' = enPassantTarget (updateEnPassantTarget s move')"
    "checkGameEnd (applyMove s from to piece' promotionPiece) = Inr s'"
    by blast
  have pp: "piece' = piece" using getPiece_valid[OF assms(1) f(2)] f(5) assms(3) by simp
  have w2: "wf s2"
    using handleSpecialMoves_fields(1)[of s "\<lparr>mv_from = from, mv_to = to, mv_piece = piece',
        mv_capturedPiece = cell s to, mv_isEnPassant = False,
        mv_isCastling = False, mv_promotionPiece = None\<rparr>" promotionPiece] f(9) assms(1) by simp
  have "cell s' to = Some (piece\<lparr>hasMoved := True\<rparr>)"
    using f(11)[of to] w2 f(2,3,4) by (simp add: cell_setCell pp)
  moreover have "piece\<lparr>hasMoved := True\<rparr> = \<lparr>ptype = Pawn, pcolor = pcolor piece, hasMoved = True\<rparr>"
    using assms(4) by (cases piece) simp
  ultimately have 1: "getPiece s' to =
      Inr (Some \<lparr>ptype = Pawn, pcolor = pcolor piece, hasMoved = True\<rparr>)"
    using getPiece_valid[OF f(10) f(3)] by simp
  have l: "last (gameHistory s') = move'" using f(12) by simp
  have 2: "mv_promotionPiece move' = Some (case promotionPiece of Some t \<Rightarrow> t | None \<Rightarrow> Queen)"
    using handleSpecialMoves_promotion[OF f(9)] assms(4,5) by (simp add: pp)
  have 3: "ptype (mv_piece move') = (case promotionPiece of Some t \<Rightarrow> t | None \<Rightarrow> Queen)"
    using handleSpecialMoves_flags(5)[OF f(9)] assms(4,5) by (simp add: pp)
  show ?thesis using 1 2 3 unfolding l by simp
qed

lemma promotionGame_legal: "legalGame newGame (promotionGame @ [(sq 1 1, sq 0 0)])"
  by code_simp

lemma beforePromotion_reachable: "reachable beforePromotion"
  using legalGame_run[OF wf_newGame _ promotionGame_legal] reachable_new
  by (simp add: beforePromotion_def newGame_def)

lemma beforePromotion_facts:
  "\<not> isGameOver beforePromotion"
  "cell beforePromotion (sq 1 1) = Some \<lparr>ptype = Pawn, pcolor = White, hasMoved = True\<rparr>"
  "legalStep beforePromotion (sq 1 1) (sq 0 0)"
  "legalStep (advance beforePromotion (sq 1 1) (sq 0 0)) (sq 2 7) (sq 3 7)"
  by code_simp+

theorem promotion_leaves_pawn_witness:
  "reachable beforePromotion
   \<and> getPiece beforePromotion (sq 1 1) =
       Inr (Some \<lparr>ptype = Pawn, pcolor = White, hasMoved = True\<rparr>)
   \<and> (\<exists>s'. makeMove beforePromotion (sq 1 1) (sq 0 0) None = Inr (True, s')
         \<and> getPiece s' (sq 0 0) = Inr (Some \<lparr>ptype = Pawn, pcolor = White, hasMoved = True\<rparr>)
         \<and> mv_promotionPiece (last (gameHistory s')) = Some Queen)"
proof -
  note wf = reachable_wf[OF beforePromotion_reachable]
  have v: "isValidPosition (sq 1 1)" by (simp add: sq_def isValidPosition_def)
  have g: "getPiece beforePromotion (sq 1 1) =
       Inr (Some \<lparr>ptype = Pawn, pcolor = White, hasMoved = True\<rparr>)"
    using getPiece_valid[OF wf v] beforePromotion_facts(2) by simp
  have m: "makeMove beforePromotion (sq 1 1) (sq 0 0) None =
      Inr (True, advance beforePromotion (sq 1 1) (sq 0 0))"
    by (rule playStep[OF wf beforePromotion_facts(1,3,4)])
  have r: "row (sq 0 0) = 0 \<or> row (sq 0 0) = 7" by (simp add: sq_def)
  from promotion_leaves_pawn[OF wf m g _ r]
  have "getPiece (advance beforePromotion (sq 1 1) (sq 0 0)) (sq 0 0) =
          Inr (Some \<lparr>ptype = Pawn, pcolor = White, hasMoved = True\<rparr>)
       \<and> mv_promotionPiece (last (gameHistory (advance beforePromotion (sq 1 1) (sq 0 0)))) =
          Some Queen"
    by simp
  with beforePromotion_reachable g m show ?thesis by blast
qed














lemma mateGame_legal: "legalGame newGame (mateGame @ [(sq 1 1, sq 3 1)])"
  by code_simp

lemma beforeMate_facts:
  "\<not> isGameOver beforeMate"
  "legalStep beforeMate (sq 1 1) (sq 3 1)"
  "currentPlayer (advance beforeMate (sq 1 1) (sq 3 1)) = White"
  "isInCheck (advance beforeMate (sq 1 1) (sq 3 1)) White"
  by code_simp+

lemma no_move_passes_filter: "\<not> anyLegalMove (advance beforeMate (sq 1 1) (sq 3 1)) White"
  by code_simp

lemma declaredMate_facts:
  "cell declaredMate (sq 3 2) = Some \<lparr>ptype = Pawn, pcolor = White, hasMoved = True\<rparr>"
  "sq 2 1 \<in> set (calculatePossibleMoves declaredMate (sq 3 2)
      \<lparr>ptype = Pawn, pcolor = White, hasMoved = True\<rparr> False)"
  "\<not> isInCheck (applyMove declaredMate (sq 3 2) (sq 2 1)
      \<lparr>ptype = Pawn, pcolor = White, hasMoved = True\<rparr> None) White"
  by code_simp+

lemma playStep_end:
  assumes wf: "wf s" and no: "\<not> isGameOver s" and l: "legalStep s from to"
    and n: "\<not> anyLegalMove (advance s from to) (currentPlayer (advance s from to))"
  shows "makeMove s from to None =
     Inr (True, (advance s from to)
        \<lparr>isGameOver := True,
         winner := Some (if isInCheck (advance s from to) (currentPlayer (advance s from to))
                         then Color (if currentPlayer (advance s from to) = White
                                     then Black else White)
                         else Draw)\<rparr>)"
proof -
  from l obtain piece where p: "isValidPosition from" "cell s from = Some piece"
    "pcolor piece = currentPlayer s" "to \<in> set (legalMoves s from)"
    by (rule legalStep_legalMoves)
  have a: "advance s from to = applyMove s from to piece None"
    by (simp add: advance_def p(2))
  have "checkGameEnd (advance s from to) =
     Inr ((advance s from to)
        \<lparr>isGameOver := True,
         winner := Some (if isInCheck (advance s from to) (currentPlayer (advance s from to))
                         then Color (if currentPlayer (advance s from to) = White
                                     then Black else White)
                         else Draw)\<rparr>)"
    using checkGameEnd_eq[of "advance s from to"] wf n by (simp add: advance_fields)
  then show ?thesis
    using p no unfolding makeMove_eq[OF wf] a[symmetric]
    by (auto simp: isValidPosition_def a[symmetric])
qed

lemma beforeMate_reachable: "reachable beforeMate"
  using legalGame_run[OF wf_newGame _ mateGame_legal] reachable_new
  by (simp add: beforeMate_def newGame_def)

lemma declaredMate_filter: "legalMoves declaredMate (sq 3 2) = []"
  by code_simp

text \<open>
  Claim C5 fails where the only legal move is an en passant capture. In the reachable state
  \<open>beforeMate\<close> Black plays b7-b5 with check; \<^verbatim>\<open>makeMove\<close> returns true and \<^verbatim>\<open>checkGameEnd\<close>
  finishes the game with Black as the winner, because \<^verbatim>\<open>getPossibleMoves\<close> is empty for every
  white piece. Yet the white pawn on c5 has the en passant capture onto b6 among its candidate
  moves, and the board the executor produces for that capture (the checking pawn on b5
  removed) has White out of check: the player does have a legal destination. The legality
  filter discards it because \<^verbatim>\<open>wouldBeInCheck\<close> leaves the captured pawn on the board.
\<close>

theorem mate_declared_despite_legal_capture:
  "reachable beforeMate
   \<and> makeMove beforeMate (sq 1 1) (sq 3 1) None = Inr (True, declaredMate)
   \<and> isGameFinished declaredMate
   \<and> getWinner declaredMate = Some (Color Black)
   \<and> getCurrentPlayer declaredMate = White
   \<and> getPossibleMoves declaredMate (sq 3 2) = Inr ([], declaredMate)
   \<and> getPiece declaredMate (sq 3 2) =
       Inr (Some \<lparr>ptype = Pawn, pcolor = White, hasMoved = True\<rparr>)
   \<and> sq 2 1 \<in> set (calculatePossibleMoves declaredMate (sq 3 2)
         \<lparr>ptype = Pawn, pcolor = White, hasMoved = True\<rparr> False)
   \<and> \<not> isInCheck (applyMove declaredMate (sq 3 2) (sq 2 1)
         \<lparr>ptype = Pawn, pcolor = White, hasMoved = True\<rparr> None) White"
proof -
  note wf = reachable_wf[OF beforeMate_reachable]
  have m: "makeMove beforeMate (sq 1 1) (sq 3 1) None = Inr (True, declaredMate)"
    using playStep_end[OF wf beforeMate_facts(1,2)] no_move_passes_filter beforeMate_facts(3,4)
    by (simp add: declaredMate_def)
  have wd: "wf declaredMate" using makeMove_wf[OF wf m] .
  have v: "isValidPosition (sq 3 2)" by (simp add: sq_def isValidPosition_def)
  have g: "getPiece declaredMate (sq 3 2) =
       Inr (Some \<lparr>ptype = Pawn, pcolor = White, hasMoved = True\<rparr>)"
    using getPiece_valid[OF wd v] declaredMate_facts(1) by simp
  have gp: "getPossibleMoves declaredMate (sq 3 2) = Inr ([], declaredMate)"
    unfolding getPossibleMoves_eq[OF wd] using declaredMate_filter by (simp add: sq_def)
  have fin: "isGameFinished declaredMate" "getWinner declaredMate = Some (Color Black)"
    "getCurrentPlayer declaredMate = White"
    using beforeMate_facts(3)
    by (simp_all add: isGameFinished_def getWinner_def getCurrentPlayer_def declaredMate_def)
  show ?thesis
    using beforeMate_reachable m fin gp g declaredMate_facts(2,3) by simp
qed

lemma beforeCapture_piece:
  "cell beforeCapture (sq 3 2) = Some \<lparr>ptype = Pawn, pcolor = White, hasMoved = True\<rparr>"
  "enPassantTarget beforeCapture = Some (sq 2 1)"
  by code_simp+

theorem board_frame_witness:
  "wf beforeCapture
   \<and> makeMove beforeCapture (sq 3 2) (sq 2 1) None = Inr (True, afterCapture)
   \<and> enPassantTarget beforeCapture = Some (sq 2 1)
   \<and> getPiece afterCapture (sq 3 2) = Inr None
   \<and> getPiece afterCapture (sq 2 1) = Inr (Some \<lparr>ptype = Pawn, pcolor = White, hasMoved = True\<rparr>)
   \<and> getPiece afterCapture (sq 3 0) = getPiece beforeCapture (sq 3 0)"
proof -
  note wf = reachable_wf[OF beforeCapture_reachable]
  have m: "makeMove beforeCapture (sq 3 2) (sq 2 1) None = Inr (True, afterCapture)"
    unfolding afterCapture_def
    by (rule playStep[OF wf beforeCapture_facts(1,5) afterCapture_facts(1)[unfolded afterCapture_def]])
  have v: "isValidPosition (sq 3 2)" "isValidPosition (sq 3 0)"
    by (simp_all add: sq_def isValidPosition_def)
  have g: "getPiece beforeCapture (sq 3 2) =
      Inr (Some \<lparr>ptype = Pawn, pcolor = White, hasMoved = True\<rparr>)"
    using getPiece_valid[OF wf v(1)] beforeCapture_piece(1) by simp
  from board_frame[OF wf m] obtain piece where p:
    "getPiece beforeCapture (sq 3 2) = Inr (Some piece)"
    "getPiece afterCapture (sq 3 2) = Inr None"
    "getPiece afterCapture (sq 2 1) = Inr (Some (piece\<lparr>hasMoved := True\<rparr>))"
    "\<forall>q. isValidPosition q \<and> q \<noteq> sq 3 2 \<and> q \<noteq> sq 2 1
            \<and> (ptype piece = King \<and> \<bar>col (sq 2 1) - col (sq 3 2)\<bar> = 2 \<longrightarrow>
                  q \<noteq> \<lparr>row = row (sq 3 2), col = (if col (sq 2 1) > col (sq 3 2) then 7 else 0)\<rparr>
                  \<and> q \<noteq> \<lparr>row = row (sq 3 2), col = (if col (sq 2 1) > col (sq 3 2) then 5 else 3)\<rparr>)
            \<and> (ptype piece = Pawn \<and> enPassantTarget beforeCapture = Some (sq 2 1) \<longrightarrow>
                  q \<noteq> \<lparr>row = (if pcolor piece = White then row (sq 2 1) + 1 else row (sq 2 1) - 1),
                         col = col (sq 2 1)\<rparr>)
          \<longrightarrow> getPiece afterCapture q = getPiece beforeCapture q"
    by blast
  from p(1) g have pc: "piece = \<lparr>ptype = Pawn, pcolor = White, hasMoved = True\<rparr>" by simp
  have "getPiece afterCapture (sq 3 0) = getPiece beforeCapture (sq 3 0)"
    using p(4)[rule_format, of "sq 3 0"] v(2) by (simp add: pc sq_def)
  with wf m beforeCapture_piece(2) p(2,3) pc show ?thesis by simp
qed

end
